theory Spec2Isabelle
  imports Main
begin

section \<open>Data model of \<open>extract_connecting_graph\<close>\<close>

text \<open>
  Node ids and distances are 64-bit signed integers in the source (\<open>id_t\<close>, \<open>int64_t\<close>);
  they are modelled as \<open>int\<close>. The only place where the conversion to the unsigned
  \<open>size_t\<close> decides what happens is \<open>std::string::substr\<close>, and there the conversion is
  written out (see \<open>substr\<close> below). A handle is the pair (node id, is reverse), a position
  the triple (node id, is reverse, offset).
\<close>

type_synonym id_t = int
type_synonym handle_t = "id_t \<times> bool"
type_synonym pos_t = "id_t \<times> bool \<times> int"
type_synonym local_edge = "id_t \<times> bool"

definition pos_id :: "pos_t \<Rightarrow> id_t" where
  "pos_id p = fst p"

definition is_rev :: "pos_t \<Rightarrow> bool" where
  "is_rev p = fst (snd p)"

definition offset :: "pos_t \<Rightarrow> int" where
  "offset p = snd (snd p)"

definition set_pos_id :: "pos_t \<Rightarrow> id_t \<Rightarrow> pos_t" where
  \<comment> \<open>\<open>get_id(pos) = new_id\<close>\<close>
  "set_pos_id p i = (i, snd p)"

datatype error =
    NonEmptyGraph      \<comment> \<open>\<open>exit(1)\<close> after the message "must extract into an empty graph"\<close>
  | OutOfRange         \<comment> \<open>\<open>std::out_of_range\<close> thrown by \<open>substr\<close>\<close>
  | InvalidIterator    \<comment> \<open>\<open>std::find\<close> returned \<open>end()\<close> and the result was dereferenced or erased\<close>

record LocalNode =
  sequence :: string
  edges_left :: "local_edge list"
  edges_right :: "local_edge list"

definition new_LocalNode :: "string \<Rightarrow> LocalNode" where
  "new_LocalNode s = \<lparr>sequence = s, edges_left = [], edges_right = []\<rparr>"

datatype colocation_t =
  SeparateNodes | SharedNodeReachable | SharedNodeUnreachable | SharedNodeReverse

text \<open>The handle graph the extraction reads from, reduced to the operations the source calls.\<close>

record HandleGraph =
  get_sequence :: "handle_t \<Rightarrow> string"
  follow_edges :: "handle_t \<Rightarrow> bool \<Rightarrow> handle_t list"
  edge_handle :: "handle_t \<Rightarrow> handle_t \<Rightarrow> handle_t \<times> handle_t"

definition get_handle :: "id_t \<Rightarrow> bool \<Rightarrow> handle_t" where
  "get_handle i r = (i, r)"

definition get_id :: "handle_t \<Rightarrow> id_t" where
  "get_id h = fst h"

definition get_is_reverse :: "handle_t \<Rightarrow> bool" where
  "get_is_reverse h = snd h"

definition forward :: "handle_t \<Rightarrow> handle_t" where
  "forward h = (fst h, False)"

text \<open>The output graph: the node and edge records added by \<open>add_node\<close> and \<open>add_edge\<close>.\<close>

record Edge =
  from_id :: id_t
  to_id :: id_t
  from_start :: bool
  to_end :: bool

record Graph =
  node :: "(id_t \<times> string) list"
  edge :: "Edge list"

definition empty_Graph :: Graph where
  "empty_Graph = \<lparr>node = [], edge = []\<rparr>"

subsection \<open>Strings\<close>

text \<open>
  \<open>std::string::substr(pos, n)\<close> takes two \<open>size_t\<close> arguments. A negative 64-bit
  argument converts to a value of at least \<open>2^63\<close>, above every string size: a negative
  start throws \<open>std::out_of_range\<close> like any start beyond the size, and a negative count
  selects the rest of the string like any count that is too large.
\<close>

definition substr :: "string \<Rightarrow> int \<Rightarrow> int \<Rightarrow> error + string" where
  "substr s pos n =
     (if pos < 0 \<or> int (length s) < pos then Inl OutOfRange
      else Inr (take (if n < 0 then length s else nat n) (drop (nat pos) s)))"

definition trimmed_seq_right :: "bool \<Rightarrow> string \<Rightarrow> int \<Rightarrow> bool \<Rightarrow> error + string" where
  "trimmed_seq_right include_terminal_positions seq off reverse =
     (if reverse then
        substr seq 0 (int (length seq) - off - 1 + of_bool include_terminal_positions)
      else
        substr seq (off + 1 - of_bool include_terminal_positions)
                   (int (length seq) - off - 1 + of_bool include_terminal_positions))"

definition trimmed_seq_left :: "bool \<Rightarrow> string \<Rightarrow> int \<Rightarrow> bool \<Rightarrow> error + string" where
  "trimmed_seq_left include_terminal_positions seq off reverse =
     (if reverse then
        substr seq (int (length seq) - off - of_bool include_terminal_positions)
                   (off + of_bool include_terminal_positions)
      else
        substr seq 0 (off + of_bool include_terminal_positions))"

subsection \<open>The internal node map\<close>

text \<open>
  An \<open>unordered_map\<close> is an association list with distinct keys
  (\<open>um_count\<close>, \<open>um_assign\<close> for \<open>m[k] = v\<close>, \<open>um_erase\<close>). Its iteration order,
  which the C++ standard leaves open, is the order of insertion here.
  For the node map \<open>graph\<close>, \<open>graph[k]\<close> on an absent key inserts an empty node, so every
  write through \<open>graph[k]\<close> is \<open>g_modify\<close>; a read of an absent key sees the empty node
  (\<open>g_at\<close>).
\<close>

type_synonym node_map = "(id_t \<times> LocalNode) list"
type_synonym id_map = "(id_t \<times> id_t) list"

definition um_count :: "('k \<times> 'v) list \<Rightarrow> 'k \<Rightarrow> bool" where
  "um_count g k = (map_of g k \<noteq> None)"

definition g_at :: "node_map \<Rightarrow> id_t \<Rightarrow> LocalNode" where
  "g_at g k = (case map_of g k of Some n \<Rightarrow> n | None \<Rightarrow> new_LocalNode [])"

primrec um_assign :: "('k \<times> 'v) list \<Rightarrow> 'k \<Rightarrow> 'v \<Rightarrow> ('k \<times> 'v) list" where
  "um_assign [] k n = [(k, n)]"
| "um_assign (p # ps) k n = (if fst p = k then (k, n) # ps else p # um_assign ps k n)"

definition g_modify :: "node_map \<Rightarrow> id_t \<Rightarrow> (LocalNode \<Rightarrow> LocalNode) \<Rightarrow> node_map" where
  "g_modify g k f = um_assign g k (f (g_at g k))"

definition um_erase :: "('k \<times> 'v) list \<Rightarrow> 'k \<Rightarrow> ('k \<times> 'v) list" where
  "um_erase g k = filter (\<lambda>p. fst p \<noteq> k) g"

definition um_keys :: "('k \<times> 'v) list \<Rightarrow> 'k list" where
  "um_keys g = map fst g"

text \<open>
  Side lists are chosen in the source by \<open>cond ? n.edges_left : n.edges_right\<close>; the
  model names the chosen side.
\<close>

datatype side = LeftSide | RightSide

definition left_if :: "bool \<Rightarrow> side" where
  \<comment> \<open>\<open>cond ? edges_left : edges_right\<close>\<close>
  "left_if c = (if c then LeftSide else RightSide)"

definition right_if :: "bool \<Rightarrow> side" where
  \<comment> \<open>\<open>cond ? edges_right : edges_left\<close>\<close>
  "right_if c = (if c then RightSide else LeftSide)"

fun edges_on :: "side \<Rightarrow> LocalNode \<Rightarrow> local_edge list" where
  "edges_on LeftSide n = edges_left n"
| "edges_on RightSide n = edges_right n"

fun set_edges_on :: "side \<Rightarrow> local_edge list \<Rightarrow> LocalNode \<Rightarrow> LocalNode" where
  "set_edges_on LeftSide es n = n\<lparr>edges_left := es\<rparr>"
| "set_edges_on RightSide es n = n\<lparr>edges_right := es\<rparr>"

definition push_edge :: "side \<Rightarrow> local_edge \<Rightarrow> LocalNode \<Rightarrow> LocalNode" where
  "push_edge sd e n = set_edges_on sd (edges_on sd n @ [e]) n"

definition set_sequence :: "string \<Rightarrow> LocalNode \<Rightarrow> LocalNode" where
  "set_sequence s n = n\<lparr>sequence := s\<rparr>"

definition emplace_back :: "node_map \<Rightarrow> id_t \<Rightarrow> side \<Rightarrow> local_edge \<Rightarrow> node_map" where
  \<comment> \<open>\<open>graph[k].edges_<sd>.emplace_back(e)\<close>\<close>
  "emplace_back g k sd e = g_modify g k (push_edge sd e)"

definition edge_at :: "node_map \<Rightarrow> id_t \<Rightarrow> side \<Rightarrow> nat \<Rightarrow> local_edge" where
  \<comment> \<open>the loop variable \<open>edge\<close> of a range-for over \<open>graph[k].edges_<sd>\<close>, at index \<open>i\<close>\<close>
  "edge_at g k sd i = edges_on sd (g_at g k) ! i"

definition edge_count :: "node_map \<Rightarrow> id_t \<Rightarrow> side \<Rightarrow> nat" where
  "edge_count g k sd = length (edges_on sd (g_at g k))"

definition set_edge_first :: "node_map \<Rightarrow> id_t \<Rightarrow> side \<Rightarrow> nat \<Rightarrow> id_t \<Rightarrow> node_map" where
  \<comment> \<open>\<open>edge.first = new_id\<close> through the reference to entry \<open>i\<close>\<close>
  "set_edge_first g k sd i new_id =
     g_modify g k (\<lambda>n. set_edges_on sd
        ((edges_on sd n)[i := (new_id, snd (edges_on sd n ! i))]) n)"

definition clear_edges :: "node_map \<Rightarrow> id_t \<Rightarrow> side \<Rightarrow> node_map" where
  "clear_edges g k sd = g_modify g k (set_edges_on sd [])"

text \<open>\<open>std::find\<close> on a side list: the index of the first equal entry, if any.\<close>

primrec find_edge :: "local_edge list \<Rightarrow> local_edge \<Rightarrow> nat option" where
  "find_edge [] e = None"
| "find_edge (x # xs) e =
     (if x = e then Some 0 else map_option Suc (find_edge xs e))"

definition erase_at :: "nat \<Rightarrow> 'a list \<Rightarrow> 'a list" where
  "erase_at i xs = take i xs @ drop (Suc i) xs"

text \<open>
  \<open>(*std::find(l.begin(), l.end(), make_pair(old_id, r))).first = new_id\<close> on the side list
  \<open>sd\<close> of node \<open>k\<close>; dereferencing \<open>end()\<close> is undefined behaviour, reported as
  \<open>InvalidIterator\<close>.
\<close>

definition relabel_found :: "node_map \<Rightarrow> id_t \<Rightarrow> side \<Rightarrow> local_edge \<Rightarrow> id_t
    \<Rightarrow> error + node_map" where
  "relabel_found g k sd e new_id =
     (case find_edge (edges_on sd (g_at g k)) e of
        None \<Rightarrow> Inl InvalidIterator
      | Some i \<Rightarrow> Inr (set_edge_first g k sd i new_id))"

text \<open>\<open>l.erase(std::find(l.begin(), l.end(), e))\<close> on the side list \<open>sd\<close> of node \<open>k\<close>.\<close>

definition erase_found :: "node_map \<Rightarrow> id_t \<Rightarrow> side \<Rightarrow> local_edge \<Rightarrow> error + node_map" where
  "erase_found g k sd e =
     (case find_edge (edges_on sd (g_at g k)) e of
        None \<Rightarrow> Inl InvalidIterator
      | Some i \<Rightarrow> Inr (g_modify g k (\<lambda>n. set_edges_on sd (erase_at i (edges_on sd n)) n)))"

text \<open>A loop whose body can fail stops at the first failure.\<close>

definition bind_err :: "error + 'a \<Rightarrow> ('a \<Rightarrow> error + 'b) \<Rightarrow> error + 'b" where
  "bind_err x f = (case x of Inl e \<Rightarrow> Inl e | Inr v \<Rightarrow> f v)"

primrec fold_err :: "('a \<Rightarrow> 's \<Rightarrow> error + 's) \<Rightarrow> 'a list \<Rightarrow> 's \<Rightarrow> error + 's" where
  "fold_err f [] s = Inr s"
| "fold_err f (x # xs) s = (case f x s of Inl e \<Rightarrow> Inl e | Inr s' \<Rightarrow> fold_err f xs s')"

subsection \<open>The filtered priority queue\<close>

text \<open>
  Modelled from the spec: \<open>FilteredPriorityQueue\<close> is declared outside the files at hand.
  The spec describes it as a min-heap paired with an "already enqueued" set keyed by the
  oriented handle: an insertion for a key already present is dropped, the top is an item of
  least distance (ties are unspecified; the earliest inserted is taken here), and \<open>clear\<close>
  empties the heap and forgets the keys.
\<close>

record fpq =
  fpq_items :: "(handle_t \<times> int) list"
  fpq_queued :: "handle_t list"

definition fpq_new :: fpq where
  "fpq_new = \<lparr>fpq_items = [], fpq_queued = []\<rparr>"

definition fpq_empty :: "fpq \<Rightarrow> bool" where
  "fpq_empty q = (fpq_items q = [])"

definition fpq_emplace :: "fpq \<Rightarrow> handle_t \<Rightarrow> int \<Rightarrow> fpq" where
  "fpq_emplace q h d =
     (if h \<in> set (fpq_queued q) then q
      else q\<lparr>fpq_items := fpq_items q @ [(h, d)], fpq_queued := fpq_queued q @ [h]\<rparr>)"

primrec least_item :: "(handle_t \<times> int) \<Rightarrow> (handle_t \<times> int) list \<Rightarrow> handle_t \<times> int" where
  "least_item m [] = m"
| "least_item m (x # xs) = least_item (if snd x < snd m then x else m) xs"

definition fpq_top :: "fpq \<Rightarrow> handle_t \<times> int" where
  "fpq_top q = (case fpq_items q of [] \<Rightarrow> ((0, False), 0) | x # xs \<Rightarrow> least_item x xs)"

definition fpq_pop :: "fpq \<Rightarrow> fpq" where
  "fpq_pop q = q\<lparr>fpq_items := remove1 (fpq_top q) (fpq_items q)\<rparr>"

section \<open>The extraction\<close>

text \<open>The local variables of \<open>extract_connecting_graph\<close> that outlive a single phase.\<close>

record ecg_state =
  graph :: node_map
  max_id :: id_t
  found_target :: bool
  observed_edges :: "(handle_t \<times> handle_t) list"
  queue :: fpq
  id_trans :: id_map
  next_id :: id_t
  duplicate_node_1 :: id_t
  duplicate_node_2 :: id_t
  pos_1 :: pos_t
  pos_2 :: pos_t

definition colocation_of :: "pos_t \<Rightarrow> pos_t \<Rightarrow> bool \<Rightarrow> colocation_t" where
  "colocation_of p1 p2 include_terminal_positions =
     (if pos_id p1 = pos_id p2 then
        (if is_rev p1 = is_rev p2 then
           (if offset p1 < offset p2 + of_bool include_terminal_positions
            then SharedNodeReachable else SharedNodeUnreachable)
         else SharedNodeReverse)
      else SeparateNodes)"

subsection \<open>Step 1: forward search\<close>

text \<open>
  The body of the lambda given to \<open>follow_edges\<close>, for the traversal \<open>trav\<close> just popped and
  one neighbouring handle \<open>next\<close>.
\<close>

definition record_edge :: "HandleGraph \<Rightarrow> handle_t \<times> int \<Rightarrow> handle_t \<Rightarrow> ecg_state \<Rightarrow> ecg_state"
  where
  "record_edge source trav nxt st =
     (let nxt_id = get_id nxt;
          nxt_rev = get_is_reverse nxt;
          reversing = (get_is_reverse (fst trav) \<noteq> nxt_rev);
          canonical_edge = edge_handle source (fst trav) nxt
      in if canonical_edge \<notin> set (observed_edges st) then
           (let g1 = g_modify (graph st) (get_id (fst trav))
                       (push_edge (left_if (get_is_reverse (fst trav))) (nxt_id, reversing));
                g2 = (if \<not> (get_id (fst trav) = nxt_id \<and> reversing)
                      then g_modify g1 nxt_id
                             (push_edge (right_if nxt_rev) (get_id (fst trav), reversing))
                      else g1)
            in st\<lparr>graph := g2, observed_edges := observed_edges st @ [canonical_edge]\<rparr>)
         else st)"

definition ensure_node :: "HandleGraph \<Rightarrow> handle_t \<Rightarrow> ecg_state \<Rightarrow> ecg_state" where
  "ensure_node source nxt st =
     (if \<not> um_count (graph st) (get_id nxt)
      then st\<lparr>graph := um_assign (graph st) (get_id nxt)
                 (new_LocalNode (get_sequence source (forward nxt)))\<rparr>
      else st)"

definition enqueue_within :: "handle_t list \<Rightarrow> int \<Rightarrow> handle_t \<times> int \<Rightarrow> handle_t
    \<Rightarrow> ecg_state \<Rightarrow> ecg_state" where
  "enqueue_within skip_handles limit trav nxt st =
     (let dist_thru = snd trav + int (length (sequence (g_at (graph st) (get_id nxt))))
      in if nxt \<notin> set skip_handles \<and> dist_thru \<le> limit
         then st\<lparr>queue := fpq_emplace (queue st) nxt dist_thru\<rparr>
         else st)"

definition forward_edge :: "HandleGraph \<Rightarrow> pos_t \<Rightarrow> handle_t list \<Rightarrow> int
    \<Rightarrow> handle_t \<times> int \<Rightarrow> handle_t \<Rightarrow> ecg_state \<Rightarrow> ecg_state" where
  "forward_edge source p2 skip_handles forward_max_len trav nxt st =
     (let st1 = st\<lparr>found_target := found_target st
                     \<or> (get_id nxt = pos_id p2 \<and> get_is_reverse nxt = is_rev p2),
                   max_id := max (max_id st) (get_id nxt)\<rparr>;
          st2 = ensure_node source nxt st1;
          st3 = enqueue_within skip_handles forward_max_len trav nxt st2
      in record_edge source trav nxt st3)"

partial_function (option) forward_search :: "HandleGraph \<Rightarrow> pos_t \<Rightarrow> handle_t list \<Rightarrow> int
    \<Rightarrow> ecg_state \<Rightarrow> ecg_state option" where
  "forward_search source p2 skip_handles forward_max_len st =
     (if fpq_empty (queue st) then Some st
      else
        (let trav = fpq_top (queue st);
             st1 = st\<lparr>queue := fpq_pop (queue st)\<rparr>
         in forward_search source p2 skip_handles forward_max_len
              (fold (forward_edge source p2 skip_handles forward_max_len trav)
                    (follow_edges source (fst trav) False) st1)))"

declare forward_search.simps [code]

subsection \<open>Step 2: backward search\<close>

text \<open>
  The distance filter of the backward lambda compares with \<open>forward_max_len\<close>, as the
  source does (line 287); \<open>backward_max_len\<close> is used for the first traversal only.
\<close>

definition backward_edge :: "HandleGraph \<Rightarrow> handle_t list \<Rightarrow> int
    \<Rightarrow> handle_t \<times> int \<Rightarrow> handle_t \<Rightarrow> ecg_state \<Rightarrow> ecg_state" where
  "backward_edge source skip_handles forward_max_len trav nxt st =
     (let st1 = st\<lparr>max_id := max (max_id st) (get_id nxt)\<rparr>;
          st2 = ensure_node source nxt st1;
          st3 = enqueue_within skip_handles forward_max_len trav nxt st2
      in record_edge source trav nxt st3)"

partial_function (option) backward_search :: "HandleGraph \<Rightarrow> handle_t list \<Rightarrow> int
    \<Rightarrow> ecg_state \<Rightarrow> ecg_state option" where
  "backward_search source skip_handles forward_max_len st =
     (if fpq_empty (queue st) then Some st
      else
        (let trav = fpq_top (queue st);
             st1 = st\<lparr>queue := fpq_pop (queue st)\<rparr>
         in backward_search source skip_handles forward_max_len
              (fold (backward_edge source skip_handles forward_max_len trav)
                    (follow_edges source (fst trav) False) st1)))"

declare backward_search.simps [code]

subsection \<open>Step 3: duplicating nodes\<close>

text \<open>
  A range-for over a side list that changes entries in place is a fold over the indices of
  the list, reading the entry from the current map. No loop of this step appends to, or
  removes from, the list it iterates.
\<close>

definition in_cycle :: "node_map \<Rightarrow> id_t \<Rightarrow> bool" where
  "in_cycle g p = (\<not> (edges_left (g_at g p) = [] \<or> edges_right (g_at g p) = []))"

text \<open>Case \<open>SeparateNodes\<close>: the loop over \<open>edges_right\<close>, the same for both positions.\<close>

definition dup_sep_right :: "id_t \<Rightarrow> id_t \<Rightarrow> nat \<Rightarrow> node_map \<times> bool \<Rightarrow> node_map \<times> bool"
  where
  "dup_sep_right p nid i gb =
     (let g = fst gb; e = edge_at g p RightSide i in
      if fst e = p \<and> snd e then
        (let g1 = set_edge_first g p RightSide i nid;
             g2 = emplace_back g1 nid RightSide (p, snd e);
             g3 = emplace_back g2 nid RightSide (nid, snd e)
         in (g3, snd gb))
      else if fst e = p then
        (let g1 = emplace_back g nid RightSide (nid, snd e);
             g2 = emplace_back g1 nid LeftSide (nid, snd e)
         in (g2, True))
      else
        (let g1 = emplace_back g (fst e) (right_if (snd e)) (nid, snd e);
             g2 = emplace_back g1 nid RightSide (fst e, snd e)
         in (g2, snd gb)))"

text \<open>The loop over \<open>node_1.edges_left\<close> (lines 388 to 404).\<close>

definition dup_sep_1_left :: "id_t \<Rightarrow> id_t \<Rightarrow> nat \<Rightarrow> node_map \<Rightarrow> node_map" where
  "dup_sep_1_left p1 nid i g =
     (let e = edge_at g p1 LeftSide i in
      if fst e = p1 \<and> snd e then
        (let g1 = set_edge_first g p1 LeftSide i nid;
             g2 = emplace_back g1 nid LeftSide (p1, snd e)
         in emplace_back g2 nid LeftSide (nid, snd e))
      else if fst e \<noteq> p1 then
        (let g1 = emplace_back g (fst e) (left_if (snd e)) (nid, snd e)
         in emplace_back g1 nid LeftSide (fst e, snd e))
      else g)"

text \<open>
  The loop over \<open>node_2.edges_left\<close> (lines 453 to 469). The backwards reference of a
  reversing self loop is written with \<open>id(pos_1)\<close>, as in the source (line 458).
\<close>

definition dup_sep_2_left :: "id_t \<Rightarrow> id_t \<Rightarrow> id_t \<Rightarrow> nat \<Rightarrow> node_map \<Rightarrow> node_map" where
  "dup_sep_2_left p1 p2 nid i g =
     (let e = edge_at g p2 LeftSide i in
      if fst e = p2 \<and> snd e then
        (let g1 = set_edge_first g p2 LeftSide i nid;
             g2 = emplace_back g1 nid LeftSide (p1, snd e)
         in emplace_back g2 nid LeftSide (nid, snd e))
      else if fst e \<noteq> p2 then
        (let g1 = emplace_back g (fst e) (left_if (snd e)) (nid, snd e)
         in emplace_back g1 nid LeftSide (fst e, snd e))
      else g)"

definition duplicate_separate_1 :: "ecg_state \<Rightarrow> ecg_state" where
  "duplicate_separate_1 st =
     (let p1 = pos_id (pos_1 st); nid = next_id st;
          g0 = um_assign (graph st) nid (new_LocalNode (sequence (g_at (graph st) p1)));
          gb = fold (dup_sep_right p1 nid) [0..<edge_count g0 p1 RightSide] (g0, False);
          g1 = fold (dup_sep_1_left p1 nid) [0..<edge_count (fst gb) p1 LeftSide] (fst gb);
          g2 = (if snd gb then
                  (let g' = emplace_back g1 nid (right_if (is_rev (pos_1 st))) (p1, False)
                   in emplace_back g' p1 (left_if (is_rev (pos_1 st))) (nid, False))
                else g1)
      in st\<lparr>graph := g2, id_trans := um_assign (id_trans st) nid p1, next_id := nid + 1\<rparr>)"

definition duplicate_separate_2 :: "ecg_state \<Rightarrow> ecg_state" where
  "duplicate_separate_2 st =
     (let p1 = pos_id (pos_1 st); p2 = pos_id (pos_2 st); nid = next_id st;
          g0 = um_assign (graph st) nid (new_LocalNode (sequence (g_at (graph st) p2)));
          gb = fold (dup_sep_right p2 nid) [0..<edge_count g0 p2 RightSide] (g0, False);
          g1 = fold (dup_sep_2_left p1 p2 nid) [0..<edge_count (fst gb) p2 LeftSide] (fst gb);
          g2 = (if snd gb then
                  (let g' = emplace_back g1 nid (left_if (is_rev (pos_2 st))) (p2, False)
                   in emplace_back g' p2 (right_if (is_rev (pos_2 st))) (nid, False))
                else g1)
      in st\<lparr>graph := g2, id_trans := um_assign (id_trans st) nid p2, next_id := nid + 1\<rparr>)"

text \<open>
  Case \<open>SharedNodeReachable\<close>. \<open>std::move\<close> of a side list leaves the list moved from
  empty.
\<close>

definition move_edges :: "node_map \<Rightarrow> id_t \<Rightarrow> side \<Rightarrow> id_t \<Rightarrow> side \<Rightarrow> node_map" where
  "move_edges g src_id src_side dst_id dst_side =
     (let es = edges_on src_side (g_at g src_id);
          g1 = g_modify g dst_id (set_edges_on dst_side es)
      in g_modify g1 src_id (set_edges_on src_side []))"

definition relabel_righthand :: "id_t \<Rightarrow> bool \<Rightarrow> id_t \<Rightarrow> nat \<Rightarrow> node_map \<Rightarrow> error + node_map"
  where
  "relabel_righthand p1 rev1 righthand_id i g =
     (let e = edge_at g righthand_id (left_if rev1) i in
      if fst e = p1 \<and> snd e then Inr (set_edge_first g righthand_id (left_if rev1) i righthand_id)
      else relabel_found g (fst e) (right_if (rev1 \<noteq> snd e)) (p1, snd e) righthand_id)"

definition relabel_lefthand :: "id_t \<Rightarrow> bool \<Rightarrow> id_t \<Rightarrow> nat \<Rightarrow> node_map \<Rightarrow> error + node_map"
  where
  "relabel_lefthand p1 rev1 lefthand_id i g =
     (let g1 = (if fst (edge_at g lefthand_id (right_if rev1) i) = p1
                then set_edge_first g lefthand_id (right_if rev1) i lefthand_id else g);
          e = edge_at g1 lefthand_id (right_if rev1) i
      in if \<not> (fst e = lefthand_id \<and> snd e)
         then relabel_found g1 (fst e) (left_if (rev1 \<noteq> snd e)) (p1, snd e) lefthand_id
         else Inr g1)"

definition dup_cycle_righthand :: "bool \<Rightarrow> id_t \<Rightarrow> id_t \<Rightarrow> id_t \<Rightarrow> nat
    \<Rightarrow> node_map \<times> bool \<Rightarrow> node_map \<times> bool" where
  "dup_cycle_righthand rev1 righthand_id lefthand_id cid i gb =
     (let g = fst gb; e = edge_at g righthand_id (left_if rev1) i in
      if fst e = righthand_id then
        (let g1 = set_edge_first g righthand_id (left_if rev1) i cid;
             g2 = emplace_back g1 cid (left_if rev1) (righthand_id, snd e);
             g3 = emplace_back g2 cid (left_if rev1) (cid, snd e)
         in (g3, snd gb))
      else if fst e = lefthand_id then (g, True)
      else
        (let g1 = emplace_back g (fst e) (right_if (rev1 \<noteq> snd e)) (cid, snd e);
             g2 = emplace_back g1 cid (left_if rev1) (fst e, snd e)
         in (g2, snd gb)))"

definition dup_cycle_lefthand :: "bool \<Rightarrow> id_t \<Rightarrow> id_t \<Rightarrow> id_t \<Rightarrow> nat
    \<Rightarrow> node_map \<Rightarrow> node_map" where
  "dup_cycle_lefthand rev1 righthand_id lefthand_id cid i g =
     (let e = edge_at g lefthand_id (right_if rev1) i in
      if fst e = lefthand_id then
        (let g1 = set_edge_first g lefthand_id (right_if rev1) i cid;
             g2 = emplace_back g1 cid (right_if rev1) (lefthand_id, snd e)
         in emplace_back g2 cid (right_if rev1) (cid, snd e))
      else if fst e \<noteq> righthand_id then
        (let g1 = emplace_back g (fst e) (left_if (rev1 \<noteq> snd e)) (cid, snd e)
         in emplace_back g1 cid (right_if rev1) (fst e, snd e))
      else g)"

definition duplicate_shared_reachable :: "bool \<Rightarrow> ecg_state \<Rightarrow> error + ecg_state" where
  "duplicate_shared_reachable include_terminal_positions st =
     (let p1 = pos_id (pos_1 st); rev1 = is_rev (pos_1 st);
          seq = sequence (g_at (graph st) p1);
          righthand_id = next_id st; lefthand_id = next_id st + 1; cid = next_id st + 2
      in
      bind_err (trimmed_seq_right include_terminal_positions seq (offset (pos_1 st)) rev1)
      (\<lambda>rseq.
        let g0 = um_assign (graph st) righthand_id (new_LocalNode rseq);
            g1 = move_edges g0 p1 (left_if rev1) righthand_id (left_if rev1)
        in
        bind_err (fold_err (relabel_righthand p1 rev1 righthand_id)
                    [0..<edge_count g1 righthand_id (left_if rev1)] g1)
        (\<lambda>g2.
          bind_err (trimmed_seq_left include_terminal_positions (sequence (g_at g2 p1))
                      (offset (pos_2 st)) (is_rev (pos_2 st)))
          (\<lambda>lseq.
            let g3 = um_assign g2 lefthand_id (new_LocalNode lseq);
                g4 = move_edges g3 p1 (right_if rev1) lefthand_id (right_if rev1)
            in
            bind_err (fold_err (relabel_lefthand p1 rev1 lefthand_id)
                        [0..<edge_count g4 lefthand_id (right_if rev1)] g4)
            (\<lambda>g5.
              let g6 = um_assign g5 cid (new_LocalNode (sequence (g_at g5 p1)));
                  gb = fold (dup_cycle_righthand rev1 righthand_id lefthand_id cid)
                         [0..<edge_count g6 righthand_id (left_if rev1)] (g6, False);
                  g7 = fold (dup_cycle_lefthand rev1 righthand_id lefthand_id cid)
                         [0..<edge_count (fst gb) lefthand_id (right_if rev1)] (fst gb);
                  g8 = (if snd gb then
                          (let a = emplace_back g7 righthand_id (left_if rev1) (cid, False);
                               b = emplace_back a cid (right_if rev1) (righthand_id, False);
                               c = emplace_back b lefthand_id (right_if rev1) (cid, False);
                               d = emplace_back c cid (left_if rev1) (lefthand_id, False);
                               e = emplace_back d cid (left_if rev1) (cid, False)
                           in emplace_back e cid (right_if rev1) (cid, False))
                        else g7)
              in Inr (st\<lparr>graph := g8,
                         id_trans := um_assign (um_assign (um_assign (id_trans st)
                                       righthand_id p1) lefthand_id p1) cid p1,
                         next_id := cid + 1,
                         duplicate_node_1 := righthand_id,
                         duplicate_node_2 := lefthand_id\<rparr>))))))"

text \<open>Case \<open>SharedNodeUnreachable\<close>.\<close>

definition dup_unreach_out :: "id_t \<Rightarrow> bool \<Rightarrow> id_t \<Rightarrow> nat
    \<Rightarrow> node_map \<times> bool \<Rightarrow> node_map \<times> bool" where
  "dup_unreach_out p1 rev1 cid i gb =
     (let g = fst gb; e = edge_at g p1 (left_if rev1) i in
      if fst e = p1 \<and> snd e then
        (let g1 = set_edge_first g p1 (left_if rev1) i cid;
             g2 = emplace_back g1 cid (left_if rev1) (p1, snd e);
             g3 = emplace_back g2 cid (left_if rev1) (cid, snd e)
         in (g3, snd gb))
      else if fst e = p1 then (g, True)
      else
        (let g1 = emplace_back g (fst e) (right_if (rev1 \<noteq> snd e)) (cid, snd e);
             g2 = emplace_back g1 cid (left_if rev1) (fst e, snd e)
         in (g2, snd gb)))"

definition dup_unreach_in :: "id_t \<Rightarrow> bool \<Rightarrow> id_t \<Rightarrow> nat \<Rightarrow> node_map \<Rightarrow> node_map" where
  "dup_unreach_in p1 rev1 cid i g =
     (let e = edge_at g p1 (right_if rev1) i in
      if fst e = p1 \<and> snd e then
        (let g1 = set_edge_first g p1 (right_if rev1) i cid;
             g2 = emplace_back g1 cid (right_if rev1) (p1, snd e)
         in emplace_back g2 cid (right_if rev1) (cid, snd e))
      else if fst e \<noteq> p1 then
        (let g1 = emplace_back g (fst e) (left_if (rev1 \<noteq> snd e)) (cid, snd e)
         in emplace_back g1 cid (right_if rev1) (fst e, snd e))
      else g)"

definition duplicate_shared_unreachable :: "ecg_state \<Rightarrow> ecg_state" where
  "duplicate_shared_unreachable st =
     (let p1 = pos_id (pos_1 st); rev1 = is_rev (pos_1 st); cid = next_id st;
          g0 = um_assign (graph st) cid (new_LocalNode (sequence (g_at (graph st) p1)));
          gb = fold (dup_unreach_out p1 rev1 cid) [0..<edge_count g0 p1 (left_if rev1)]
                 (g0, False);
          g1 = fold (dup_unreach_in p1 rev1 cid) [0..<edge_count (fst gb) p1 (right_if rev1)]
                 (fst gb);
          g2 = (if snd gb then
                  (let a = emplace_back g1 p1 (left_if rev1) (cid, False);
                       b = emplace_back a cid (right_if rev1) (p1, False);
                       c = emplace_back b p1 (right_if rev1) (cid, False);
                       d = emplace_back c cid (left_if rev1) (p1, False);
                       e = emplace_back d cid (left_if rev1) (cid, False)
                   in emplace_back e cid (right_if rev1) (cid, False))
                else g1)
      in st\<lparr>graph := g2, id_trans := um_assign (id_trans st) cid p1, next_id := cid + 1\<rparr>)"

text \<open>Case \<open>SharedNodeReverse\<close>.\<close>

definition dup_reverse_out :: "id_t \<Rightarrow> bool \<Rightarrow> id_t \<Rightarrow> nat
    \<Rightarrow> node_map \<times> bool \<times> bool \<Rightarrow> node_map \<times> bool \<times> bool" where
  "dup_reverse_out p1 rev1 cid i gbb =
     (let g = fst gbb; e = edge_at g p1 (left_if rev1) i in
      if fst e = p1 \<and> snd e then (g, True, snd (snd gbb))
      else if fst e = p1 then (g, fst (snd gbb), True)
      else
        (let g1 = emplace_back g (fst e) (right_if (rev1 \<noteq> snd e)) (cid, snd e);
             g2 = emplace_back g1 cid (left_if rev1) (fst e, snd e)
         in (g2, snd gbb)))"

definition dup_reverse_in :: "id_t \<Rightarrow> bool \<Rightarrow> id_t \<Rightarrow> nat \<Rightarrow> node_map \<Rightarrow> node_map" where
  "dup_reverse_in p1 rev1 cid i g =
     (let e = edge_at g p1 (right_if rev1) i in
      if fst e = p1 \<and> snd e then emplace_back g cid (right_if rev1) (cid, snd e)
      else if fst e \<noteq> p1 then
        (let g1 = emplace_back g (fst e) (left_if (rev1 \<noteq> snd e)) (cid, snd e)
         in emplace_back g1 cid (right_if rev1) (fst e, snd e))
      else g)"

definition duplicate_shared_reverse :: "ecg_state \<Rightarrow> ecg_state" where
  "duplicate_shared_reverse st =
     (let p1 = pos_id (pos_1 st); rev1 = is_rev (pos_1 st); cid = next_id st;
          g0 = um_assign (graph st) cid (new_LocalNode (sequence (g_at (graph st) p1)));
          gbb = fold (dup_reverse_out p1 rev1 cid) [0..<edge_count g0 p1 (left_if rev1)]
                  (g0, False, False);
          g1 = fold (dup_reverse_in p1 rev1 cid) [0..<edge_count (fst gbb) p1 (right_if rev1)]
                 (fst gbb);
          g2 = (if fst (snd gbb) then
                  (let a = emplace_back g1 p1 (left_if rev1) (cid, True);
                       b = emplace_back a cid (left_if rev1) (p1, True)
                   in emplace_back b cid (left_if rev1) (cid, True))
                else g1);
          g3 = (if snd (snd gbb) then
                  (let a = emplace_back g2 p1 (left_if rev1) (cid, False);
                       b = emplace_back a cid (right_if rev1) (p1, False);
                       c = emplace_back b cid (left_if rev1) (cid, False)
                   in emplace_back c cid (right_if rev1) (cid, False))
                else g2)
      in st\<lparr>graph := g3, id_trans := um_assign (id_trans st) cid p1, next_id := cid + 1\<rparr>)"

definition duplicate_nodes :: "bool \<Rightarrow> bool \<Rightarrow> colocation_t \<Rightarrow> ecg_state \<Rightarrow> error + ecg_state"
  where
  "duplicate_nodes include_terminal_positions detect_terminal_cycles colocation st =
     (if detect_terminal_cycles then
        (let in_cycle_1 = in_cycle (graph st) (pos_id (pos_1 st));
             in_cycle_2 = in_cycle (graph st) (pos_id (pos_2 st))
         in case colocation of
              SeparateNodes \<Rightarrow>
                (let st1 = (if in_cycle_1 then duplicate_separate_1 st else st)
                 in Inr (if in_cycle_2 then duplicate_separate_2 st1 else st1))
            | SharedNodeReachable \<Rightarrow>
                (if in_cycle_1 then duplicate_shared_reachable include_terminal_positions st
                 else Inr st)
            | SharedNodeUnreachable \<Rightarrow> Inr (duplicate_shared_unreachable st)
            | SharedNodeReverse \<Rightarrow>
                (if in_cycle_1 then Inr (duplicate_shared_reverse st) else Inr st))
      else Inr st)"

subsection \<open>Step 4: cutting nodes\<close>

text \<open>
  The loops of this step only read the list they iterate, and erase mirror entries from
  other lists. Should an erasure shorten the iterated list itself, the range-for would run
  past its end; the model reports that as \<open>InvalidIterator\<close>.
\<close>

definition cut_backrefs :: "id_t \<Rightarrow> side \<Rightarrow> id_t \<Rightarrow> (bool \<Rightarrow> side) \<Rightarrow> nat \<Rightarrow> node_map
    \<Rightarrow> error + node_map" where
  \<comment> \<open>one iteration over the side list \<open>sd\<close> of node \<open>k\<close>: unless the entry is a reversing
      self loop of \<open>p\<close>, erase \<open>(p, edge.second)\<close> from the neighbour's list \<open>backward edge.second\<close>\<close>
  "cut_backrefs k sd p backward i g =
     (if i < edge_count g k sd then
        (let e = edge_at g k sd i in
         if \<not> (fst e = p \<and> snd e) then erase_found g (fst e) (backward (snd e)) (p, snd e)
         else Inr g)
      else Inl InvalidIterator)"

definition set_node_sequence :: "node_map \<Rightarrow> id_t \<Rightarrow> string \<Rightarrow> node_map" where
  "set_node_sequence g k s = g_modify g k (set_sequence s)"

definition cut_separate :: "bool \<Rightarrow> ecg_state \<Rightarrow> error + ecg_state" where
  "cut_separate include_terminal_positions st =
     (let p1 = pos_id (pos_1 st); p2 = pos_id (pos_2 st);
          rev1 = is_rev (pos_1 st); rev2 = is_rev (pos_2 st);
          g0 = g_modify (g_modify (graph st) p1 (\<lambda>n. n)) p2 (\<lambda>n. n)
      in
      bind_err (fold_err (cut_backrefs p1 (right_if rev1) p1 (\<lambda>r. left_if (rev1 \<noteq> r)))
                  [0..<edge_count g0 p1 (right_if rev1)] g0)
      (\<lambda>g1.
        bind_err (fold_err (cut_backrefs p2 (left_if rev2) p2 (\<lambda>r. right_if (rev2 \<noteq> r)))
                    [0..<edge_count g1 p2 (left_if rev2)] g1)
        (\<lambda>g2.
          let g3 = clear_edges g2 p1 (right_if rev1);
              g4 = clear_edges g3 p2 (left_if rev2)
          in
          bind_err (trimmed_seq_right include_terminal_positions (sequence (g_at g4 p1))
                      (offset (pos_1 st)) rev1)
          (\<lambda>s1.
            let g5 = set_node_sequence g4 p1 s1 in
            bind_err (trimmed_seq_left include_terminal_positions (sequence (g_at g5 p2))
                        (offset (pos_2 st)) rev2)
            (\<lambda>s2. Inr (st\<lparr>graph := set_node_sequence g5 p2 s2\<rparr>))))))"

text \<open>
  The cut of the shared node in case \<open>SharedNodeReachable\<close> (lines 866 to 873): the part of
  the sequence between the two offsets.
\<close>

definition middle_seq :: "bool \<Rightarrow> string \<Rightarrow> int \<Rightarrow> int \<Rightarrow> bool \<Rightarrow> error + string" where
  "middle_seq include_terminal_positions seq off1 off2 rev1 =
     (if rev1 then
        substr seq (int (length seq) - off2 - of_bool include_terminal_positions)
                   (off2 - off1 - 1 + 2 * of_bool include_terminal_positions)
      else
        substr seq (off1 + 1 - of_bool include_terminal_positions)
                   (off2 - off1 - 1 + 2 * of_bool include_terminal_positions))"

definition cut_shared_reachable :: "bool \<Rightarrow> ecg_state \<Rightarrow> error + ecg_state" where
  "cut_shared_reachable include_terminal_positions st =
     (let p1 = pos_id (pos_1 st); p2 = pos_id (pos_2 st);
          rev1 = is_rev (pos_1 st); rev2 = is_rev (pos_2 st);
          g0 = g_modify (graph st) p1 (\<lambda>n. n)
      in
      bind_err (fold_err (cut_backrefs p1 RightSide p1 (\<lambda>r. left_if (rev1 \<noteq> r)))
                  [0..<edge_count g0 p1 RightSide] g0)
      (\<lambda>g1.
        bind_err (fold_err (cut_backrefs p1 LeftSide p2 (\<lambda>r. right_if (rev2 \<noteq> r)))
                    [0..<edge_count g1 p1 LeftSide] g1)
        (\<lambda>g2.
          let g3 = clear_edges g2 p1 RightSide;
              g4 = clear_edges g3 p1 LeftSide;
              seq = sequence (g_at g4 p1)
          in
          bind_err (middle_seq include_terminal_positions seq (offset (pos_1 st))
                      (offset (pos_2 st)) rev1)
            (\<lambda>s. Inr (st\<lparr>graph := set_node_sequence g4 p1 s\<rparr>)))))"

text \<open>Case \<open>SharedNodeUnreachable\<close>: the inner loop relabels the first entry whose id is
  \<open>id(pos_1)\<close>, whatever its flag, and then breaks.\<close>

primrec find_first_id :: "local_edge list \<Rightarrow> id_t \<Rightarrow> nat option" where
  "find_first_id [] k = None"
| "find_first_id (x # xs) k =
     (if fst x = k then Some 0 else map_option Suc (find_first_id xs k))"

definition relabel_split :: "id_t \<Rightarrow> id_t \<Rightarrow> nat \<Rightarrow> node_map \<Rightarrow> node_map" where
  "relabel_split p1 nid i g =
     (let e = edge_at g nid RightSide i;
          g1 = g_modify g (fst e) (\<lambda>n. n)
      in case find_first_id (edges_on (right_if (snd e)) (g_at g1 (fst e))) p1 of
           None \<Rightarrow> g1
         | Some j \<Rightarrow> set_edge_first g1 (fst e) (right_if (snd e)) j nid)"

definition cut_shared_unreachable :: "bool \<Rightarrow> ecg_state \<Rightarrow> error + ecg_state" where
  "cut_shared_unreachable include_terminal_positions st =
     (let p1 = pos_id (pos_1 st); rev1 = is_rev (pos_1 st); nid = next_id st;
          g0 = g_modify (graph st) p1 (\<lambda>n. n);
          g1 = um_assign g0 nid (new_LocalNode (sequence (g_at g0 p1)));
          g2 = move_edges g1 p1 RightSide nid RightSide;
          g3 = fold (relabel_split p1 nid) [0..<edge_count g2 nid RightSide] g2
      in
      if rev1 then
        bind_err (trimmed_seq_right include_terminal_positions (sequence (g_at g3 p1))
                    (offset (pos_1 st)) rev1)
        (\<lambda>s1.
          let g4 = set_node_sequence g3 p1 s1 in
          bind_err (trimmed_seq_left include_terminal_positions (sequence (g_at g4 nid))
                      (offset (pos_2 st)) (is_rev (pos_2 st)))
          (\<lambda>s2. Inr (st\<lparr>graph := set_node_sequence g4 nid s2,
                         id_trans := um_assign (id_trans st) nid (pos_id (pos_2 st)),
                         pos_2 := set_pos_id (pos_2 st) nid,
                         next_id := nid + 1\<rparr>)))
      else
        bind_err (trimmed_seq_right include_terminal_positions (sequence (g_at g3 nid))
                    (offset (pos_1 st)) rev1)
        (\<lambda>s1.
          let g4 = set_node_sequence g3 nid s1 in
          bind_err (trimmed_seq_left include_terminal_positions (sequence (g_at g4 p1))
                      (offset (pos_2 st)) (is_rev (pos_2 st)))
          (\<lambda>s2. Inr (st\<lparr>graph := set_node_sequence g4 p1 s2,
                         id_trans := um_assign (id_trans st) nid p1,
                         pos_1 := set_pos_id (pos_1 st) nid,
                         next_id := nid + 1\<rparr>))))"

text \<open>Case \<open>SharedNodeReverse\<close>.\<close>

definition sink_edges :: "id_t \<Rightarrow> bool \<Rightarrow> id_t \<Rightarrow> nat \<Rightarrow> node_map \<Rightarrow> node_map" where
  "sink_edges p1 rev1 nid i g =
     (let e = edge_at g p1 (left_if rev1) i in
      if fst e = p1 then
        (let g1 = set_edge_first g p1 (left_if rev1) i nid
         in emplace_back g1 nid (left_if rev1) (p1, snd e))
      else
        (let g1 = g_modify g (fst e) (\<lambda>n. n);
             g2 = emplace_back g1 nid (left_if rev1) (fst e, snd e)
         in emplace_back g2 (fst e) (right_if (rev1 \<noteq> snd e)) (nid, snd e)))"

definition cut_shared_reverse :: "bool \<Rightarrow> ecg_state \<Rightarrow> error + ecg_state" where
  "cut_shared_reverse include_terminal_positions st =
     (let p1 = pos_id (pos_1 st); rev1 = is_rev (pos_1 st); nid = next_id st;
          g0 = g_modify (graph st) p1 (\<lambda>n. n)
      in
      bind_err (fold_err (cut_backrefs p1 (right_if rev1) p1 (\<lambda>r. left_if (rev1 \<noteq> r)))
                  [0..<edge_count g0 p1 (right_if rev1)] g0)
      (\<lambda>g1.
        let g2 = clear_edges g1 p1 (right_if rev1);
            g3 = um_assign g2 nid (new_LocalNode (sequence (g_at g2 p1)));
            g4 = fold (sink_edges p1 rev1 nid) [0..<edge_count g3 p1 (left_if rev1)] g3
        in
        bind_err (trimmed_seq_right include_terminal_positions (sequence (g_at g4 p1))
                    (offset (pos_1 st)) rev1)
        (\<lambda>s1.
          let g5 = set_node_sequence g4 p1 s1 in
          bind_err (trimmed_seq_left include_terminal_positions (sequence (g_at g5 nid))
                      (offset (pos_2 st)) (is_rev (pos_2 st)))
          (\<lambda>s2. Inr (st\<lparr>graph := set_node_sequence g5 nid s2,
                         id_trans := um_assign (id_trans st) nid p1,
                         pos_2 := set_pos_id (pos_2 st) nid,
                         next_id := nid + 1\<rparr>)))))"

definition cut_nodes :: "bool \<Rightarrow> colocation_t \<Rightarrow> ecg_state \<Rightarrow> error + ecg_state" where
  "cut_nodes include_terminal_positions colocation st =
     (case colocation of
        SeparateNodes \<Rightarrow> cut_separate include_terminal_positions st
      | SharedNodeReachable \<Rightarrow> cut_shared_reachable include_terminal_positions st
      | SharedNodeUnreachable \<Rightarrow> cut_shared_unreachable include_terminal_positions st
      | SharedNodeReverse \<Rightarrow> cut_shared_reverse include_terminal_positions st)"

subsection \<open>Step 5: pruning\<close>

text \<open>
  At this point the edges of the map point at nodes of the map, so the reads \<open>graph[k]\<close>
  of the sweeps find their node; \<open>g_at\<close> answers a read of an absent key with the empty
  node and inserts nothing. Distance maps are keyed by (id, strand) pairs.
\<close>

type_synonym dist_map = "(handle_t \<times> int) list"

definition seq_size :: "node_map \<Rightarrow> id_t \<Rightarrow> int" where
  "seq_size g k = int (length (sequence (g_at g k)))"

definition out_edges :: "node_map \<Rightarrow> handle_t \<Rightarrow> local_edge list" where
  \<comment> \<open>\<open>trav.rev ? graph[trav.id].edges_left : graph[trav.id].edges_right\<close>\<close>
  "out_edges g trav = edges_on (left_if (snd trav)) (g_at g (fst trav))"

partial_function (option) forward_prune_sweep :: "node_map \<Rightarrow> fpq \<times> dist_map
    \<Rightarrow> dist_map option" where
  "forward_prune_sweep g qd =
     (if fpq_empty (fst qd) then Some (snd qd)
      else
        (let trav = fpq_top (fst qd);
             q1 = fpq_pop (fst qd);
             d1 = um_assign (snd qd) (fst trav) (snd trav);
             q2 = fold (\<lambda>e q. fpq_emplace q (fst e, snd e \<noteq> snd (fst trav))
                                 (snd trav + seq_size g (fst e)))
                       (out_edges g (fst trav)) q1
         in forward_prune_sweep g (q2, d1)))"

declare forward_prune_sweep.simps [code]

partial_function (option) backward_prune_sweep :: "node_map \<Rightarrow> fpq \<times> dist_map
    \<Rightarrow> dist_map option" where
  "backward_prune_sweep g qd =
     (if fpq_empty (fst qd) then Some (snd qd)
      else
        (let trav = fpq_top (fst qd);
             q1 = fpq_pop (fst qd);
             d1 = um_assign (snd qd) (fst trav) (snd trav);
             dist_thru = snd trav + seq_size g (fst (fst trav));
             q2 = fold (\<lambda>e q. fpq_emplace q (fst e, snd e \<noteq> snd (fst trav)) dist_thru)
                       (out_edges g (fst trav)) q1
         in backward_prune_sweep g (q2, d1)))"

declare backward_prune_sweep.simps [code]

definition short_enough :: "dist_map \<Rightarrow> dist_map \<Rightarrow> handle_t \<Rightarrow> handle_t \<Rightarrow> int \<Rightarrow> int \<Rightarrow> bool"
  where
  \<comment> \<open>both distances are recorded and their sum, plus \<open>extra\<close>, is at most \<open>max_len\<close>\<close>
  "short_enough fwd bwd a b extra max_len =
     (case map_of fwd a of None \<Rightarrow> False
      | Some x \<Rightarrow> (case map_of bwd b of None \<Rightarrow> False | Some y \<Rightarrow> x + y + extra \<le> max_len))"

definition keep_node_strict :: "dist_map \<Rightarrow> dist_map \<Rightarrow> int \<Rightarrow> id_t \<Rightarrow> bool" where
  "keep_node_strict fwd bwd max_len node_id =
     (short_enough fwd bwd (node_id, True) (node_id, False) 0 max_len
      \<or> short_enough fwd bwd (node_id, False) (node_id, True) 0 max_len)"

definition keep_right_strict :: "node_map \<Rightarrow> dist_map \<Rightarrow> dist_map \<Rightarrow> int \<Rightarrow> id_t
    \<Rightarrow> local_edge \<Rightarrow> bool" where
  "keep_right_strict g fwd bwd max_len node_id e =
     (short_enough fwd bwd (node_id, False) (fst e, \<not> snd e) (seq_size g (fst e)) max_len
      \<or> short_enough fwd bwd (fst e, \<not> snd e) (node_id, False) (seq_size g node_id) max_len)"

definition keep_left_strict :: "node_map \<Rightarrow> dist_map \<Rightarrow> dist_map \<Rightarrow> int \<Rightarrow> id_t
    \<Rightarrow> local_edge \<Rightarrow> bool" where
  "keep_left_strict g fwd bwd max_len node_id e =
     (short_enough fwd bwd (node_id, True) (fst e, snd e) (seq_size g (fst e)) max_len
      \<or> short_enough fwd bwd (fst e, snd e) (node_id, True) (seq_size g node_id) max_len)"

text \<open>
  The loop over the map keeps or drops each node and filters the two side lists of a kept
  node (\<open>remove_if\<close> followed by \<open>resize\<close>); the predicates read sequence sizes only, which
  the loop does not change.
\<close>

definition filter_edges :: "(id_t \<Rightarrow> bool) \<Rightarrow> (id_t \<Rightarrow> local_edge \<Rightarrow> bool)
    \<Rightarrow> (id_t \<Rightarrow> local_edge \<Rightarrow> bool) \<Rightarrow> node_map \<Rightarrow> node_map" where
  "filter_edges keep_node keep_left keep_right g =
     map (\<lambda>p. if keep_node (fst p)
               then (fst p, (snd p)\<lparr>edges_right := filter (keep_right (fst p)) (edges_right (snd p)),
                                     edges_left := filter (keep_left (fst p)) (edges_left (snd p))\<rparr>)
               else p) g"

definition erase_nodes :: "id_t list \<Rightarrow> ecg_state \<Rightarrow> ecg_state" where
  \<comment> \<open>the loop over \<open>to_erase\<close>: drop the id from the translator and the node from the map\<close>
  "erase_nodes to_erase st =
     fold (\<lambda>k s. s\<lparr>id_trans := um_erase (id_trans s) k, graph := um_erase (graph s) k\<rparr>)
          to_erase st"

definition start_queue :: "handle_t \<Rightarrow> int \<Rightarrow> id_t \<Rightarrow> int \<Rightarrow> fpq" where
  \<comment> \<open>the queue after \<open>clear\<close>, the first \<open>emplace\<close> and, if a duplicate was made, the second\<close>
  "start_queue h d dup dup_dist =
     (let q = fpq_emplace fpq_new h d
      in if dup \<noteq> 0 then fpq_emplace q (dup, snd h) dup_dist else q)"

definition prune_strict_max_len :: "int \<Rightarrow> ecg_state \<Rightarrow> ecg_state option" where
  "prune_strict_max_len max_len st =
     (let g = graph st;
          p1 = pos_id (pos_1 st); p2 = pos_id (pos_2 st)
      in
      case forward_prune_sweep g
             (start_queue (p1, is_rev (pos_1 st)) (seq_size g p1)
                (duplicate_node_1 st) (seq_size g (duplicate_node_1 st)), []) of
        None \<Rightarrow> None
      | Some fwd \<Rightarrow>
         (case backward_prune_sweep g
                 (start_queue (p2, \<not> is_rev (pos_2 st)) 0 (duplicate_node_2 st) 0, []) of
            None \<Rightarrow> None
          | Some bwd \<Rightarrow>
              (let to_erase = filter (\<lambda>k. \<not> keep_node_strict fwd bwd max_len k) (um_keys g);
                   g1 = filter_edges (keep_node_strict fwd bwd max_len)
                          (keep_left_strict g fwd bwd max_len)
                          (keep_right_strict g fwd bwd max_len) g
               in Some (erase_nodes to_erase (st\<lparr>graph := g1\<rparr>)))))"

text \<open>Option 2: the stack is a list whose back is its last element.\<close>

definition reach_visit :: "handle_t \<Rightarrow> local_edge \<Rightarrow> handle_t list \<times> handle_t list
    \<Rightarrow> handle_t list \<times> handle_t list" where
  "reach_visit trav e sr =
     (let next_trav = (fst e, snd e \<noteq> snd trav)
      in if next_trav \<notin> set (snd sr) then (fst sr @ [next_trav], snd sr @ [next_trav])
         else sr)"

partial_function (option) reach_sweep :: "node_map \<Rightarrow> handle_t list \<times> handle_t list
    \<Rightarrow> handle_t list option" where
  "reach_sweep g sr =
     (if fst sr = [] then Some (snd sr)
      else
        (let trav = last (fst sr)
         in reach_sweep g (fold (reach_visit trav) (out_edges g trav) (butlast (fst sr), snd sr))))"

declare reach_sweep.simps [code]

definition start_stack :: "handle_t \<Rightarrow> id_t \<Rightarrow> handle_t list" where
  "start_stack h dup = (if dup \<noteq> 0 then [h, (dup, snd h)] else [h])"

definition keep_node_paths :: "handle_t list \<Rightarrow> handle_t list \<Rightarrow> id_t \<Rightarrow> bool" where
  "keep_node_paths fr rr node_id =
     (\<not> (\<not> ((node_id, True) \<in> set fr \<and> (node_id, False) \<in> set rr)
         \<and> \<not> ((node_id, False) \<in> set fr \<and> (node_id, True) \<in> set rr)))"

definition keep_right_paths :: "handle_t list \<Rightarrow> handle_t list \<Rightarrow> id_t \<Rightarrow> local_edge \<Rightarrow> bool"
  where
  "keep_right_paths fr rr node_id e =
     (\<not> (\<not> ((node_id, False) \<in> set fr \<and> (fst e, \<not> snd e) \<in> set rr)
         \<and> \<not> ((fst e, \<not> snd e) \<in> set fr \<and> (node_id, False) \<in> set rr)))"

definition keep_left_paths :: "handle_t list \<Rightarrow> handle_t list \<Rightarrow> id_t \<Rightarrow> local_edge \<Rightarrow> bool"
  where
  "keep_left_paths fr rr node_id e =
     (\<not> (\<not> ((node_id, True) \<in> set fr \<and> (fst e, snd e) \<in> set rr)
         \<and> \<not> ((fst e, snd e) \<in> set fr \<and> (node_id, True) \<in> set rr)))"

definition prune_only_paths :: "ecg_state \<Rightarrow> ecg_state option" where
  "prune_only_paths st =
     (let g = graph st;
          s1 = start_stack (pos_id (pos_1 st), is_rev (pos_1 st)) (duplicate_node_1 st);
          s2 = start_stack (pos_id (pos_2 st), \<not> is_rev (pos_2 st)) (duplicate_node_2 st)
      in
      case reach_sweep g (s1, s1) of
        None \<Rightarrow> None
      | Some fr \<Rightarrow>
         (case reach_sweep g (s2, s2) of
            None \<Rightarrow> None
          | Some rr \<Rightarrow>
              (let to_erase = filter (\<lambda>k. \<not> keep_node_paths fr rr k) (um_keys g);
                   g1 = filter_edges (keep_node_paths fr rr) (keep_left_paths fr rr)
                          (keep_right_paths fr rr) g
               in Some (erase_nodes to_erase (st\<lparr>graph := g1\<rparr>)))))"

text \<open>
  Option 3. The degree maps are total maps that answer 0 for an id never stored, as
  \<open>operator[]\<close> of \<open>unordered_map<id_t, int64_t>\<close> does; the outer loop runs over the ids
  of the map as they were when the degrees were counted. \<open>to_check\<close> is a list whose
  front is its head and whose back is its last element.
\<close>

record tip_state =
  tip_graph :: node_map
  tip_id_trans :: id_map
  left_degree :: "id_t \<Rightarrow> int"
  right_degree :: "id_t \<Rightarrow> int"
  to_check :: "id_t list"

definition drop_left_tip_edge :: "local_edge \<Rightarrow> tip_state \<Rightarrow> tip_state" where
  \<comment> \<open>one entry of the right side list of a removed left tip\<close>
  "drop_left_tip_edge e ts =
     (let ts1 = (if snd e
                 then ts\<lparr>right_degree := (right_degree ts)(fst e := right_degree ts (fst e) - 1)\<rparr>
                 else ts\<lparr>left_degree := (left_degree ts)(fst e := left_degree ts (fst e) - 1)\<rparr>)
      in ts1\<lparr>to_check := fst e # to_check ts1\<rparr>)"

definition drop_right_tip_edge :: "local_edge \<Rightarrow> tip_state \<Rightarrow> tip_state" where
  \<comment> \<open>one entry of the left side list of a removed right tip\<close>
  "drop_right_tip_edge e ts =
     (let ts1 = (if snd e
                 then ts\<lparr>left_degree := (left_degree ts)(fst e := left_degree ts (fst e) - 1)\<rparr>
                 else ts\<lparr>right_degree := (right_degree ts)(fst e := right_degree ts (fst e) - 1)\<rparr>)
      in ts1\<lparr>to_check := fst e # to_check ts1\<rparr>)"

definition remove_tip :: "id_t \<Rightarrow> side \<Rightarrow> tip_state \<Rightarrow> tip_state" where
  \<comment> \<open>\<open>sd\<close> is the side list walked: the right one for a left tip, the left one for a right tip\<close>
  "remove_tip node_id sd ts =
     (let ts1 = ts\<lparr>tip_id_trans := um_erase (tip_id_trans ts) node_id\<rparr>;
          ts2 = fold (case sd of RightSide \<Rightarrow> drop_left_tip_edge | LeftSide \<Rightarrow> drop_right_tip_edge)
                     (edges_on sd (g_at (tip_graph ts1) node_id)) ts1
      in ts2\<lparr>tip_graph := um_erase (tip_graph ts2) node_id\<rparr>)"

partial_function (option) check_tips :: "id_t list \<Rightarrow> tip_state \<Rightarrow> tip_state option" where
  "check_tips protected ts =
     (if to_check ts = [] then Some ts
      else
        (let node_id = last (to_check ts);
             ts1 = ts\<lparr>to_check := butlast (to_check ts)\<rparr>
         in if node_id \<in> set protected \<or> \<not> um_count (tip_graph ts1) node_id
            then check_tips protected ts1
            else if left_degree ts1 node_id = 0
            then check_tips protected (remove_tip node_id RightSide ts1)
            else if right_degree ts1 node_id = 0
            then check_tips protected (remove_tip node_id LeftSide ts1)
            else check_tips protected ts1))"

declare check_tips.simps [code]

primrec check_all_tips :: "id_t list \<Rightarrow> id_t list \<Rightarrow> tip_state \<Rightarrow> tip_state option" where
  "check_all_tips protected [] ts = Some ts"
| "check_all_tips protected (k # ks) ts =
     (case check_tips protected (ts\<lparr>to_check := k # to_check ts\<rparr>) of
        None \<Rightarrow> None
      | Some ts' \<Rightarrow> check_all_tips protected ks ts')"

definition drop_dangling :: "node_map \<Rightarrow> node_map" where
  \<comment> \<open>remove the entries that point to nodes no longer in the map\<close>
  "drop_dangling g =
     map (\<lambda>p. (fst p, (snd p)\<lparr>edges_left := filter (\<lambda>e. um_count g (fst e)) (edges_left (snd p)),
                                edges_right := filter (\<lambda>e. um_count g (fst e)) (edges_right (snd p))\<rparr>))
         g"

definition prune_tips :: "ecg_state \<Rightarrow> ecg_state option" where
  "prune_tips st =
     (let g = graph st;
          ts0 = \<lparr>tip_graph = g, tip_id_trans = id_trans st,
                 left_degree = (\<lambda>k. int (length (edges_left (g_at g k)))),
                 right_degree = (\<lambda>k. int (length (edges_right (g_at g k)))),
                 to_check = []\<rparr>;
          protected = [pos_id (pos_1 st), pos_id (pos_2 st),
                       duplicate_node_1 st, duplicate_node_2 st]
      in case check_all_tips protected (um_keys g) ts0 of
           None \<Rightarrow> None
         | Some ts \<Rightarrow> Some (st\<lparr>graph := drop_dangling (tip_graph ts),
                                 id_trans := tip_id_trans ts\<rparr>))"

definition prune :: "int \<Rightarrow> bool \<Rightarrow> bool \<Rightarrow> bool \<Rightarrow> ecg_state \<Rightarrow> ecg_state option" where
  "prune max_len no_additional_tips only_paths strict_max_len st =
     (if strict_max_len then prune_strict_max_len max_len st
      else if only_paths then prune_only_paths st
      else if no_additional_tips then prune_tips st
      else Some st)"

subsection \<open>Step 6: translation to the output graph\<close>

definition complete_id_trans :: "node_map \<Rightarrow> id_map \<Rightarrow> id_map" where
  "complete_id_trans g tr =
     fold (\<lambda>p m. if \<not> um_count m (fst p) then um_assign m (fst p) (fst p) else m) g tr"

definition emit_edges :: "id_t \<times> LocalNode \<Rightarrow> Edge list" where
  "emit_edges p =
     map (\<lambda>e. \<lparr>from_id = fst p, to_id = fst e, from_start = True, to_end = \<not> snd e\<rparr>)
         (filter (\<lambda>e. fst e > fst p \<or> (fst e = fst p \<and> snd e)) (edges_left (snd p)))
     @ map (\<lambda>e. \<lparr>from_id = fst p, to_id = fst e, from_start = False, to_end = snd e\<rparr>)
           (filter (\<lambda>e. fst e \<ge> fst p) (edges_right (snd p)))"

definition emit :: "node_map \<Rightarrow> Graph \<Rightarrow> Graph" where
  "emit gr g = g\<lparr>node := node g @ map (\<lambda>p. (fst p, sequence (snd p))) gr,
                 edge := edge g @ concat (map emit_edges gr)\<rparr>"

subsection \<open>The whole procedure\<close>

definition init_state :: "HandleGraph \<Rightarrow> pos_t \<Rightarrow> pos_t \<Rightarrow> ecg_state" where
  "init_state source p1 p2 =
     (let g0 = um_assign [] (pos_id p1)
                 (new_LocalNode (get_sequence source (get_handle (pos_id p1) False)));
          g1 = (if pos_id p2 \<noteq> pos_id p1
                then um_assign g0 (pos_id p2)
                       (new_LocalNode (get_sequence source (get_handle (pos_id p2) False)))
                else g0)
      in \<lparr>graph = g1, max_id = max (pos_id p1) (pos_id p2), found_target = False,
          observed_edges = [], queue = fpq_new, id_trans = [], next_id = 0,
          duplicate_node_1 = 0, duplicate_node_2 = 0, pos_1 = p1, pos_2 = p2\<rparr>)"

definition first_traversal_length :: "HandleGraph \<Rightarrow> pos_t \<Rightarrow> int" where
  \<comment> \<open>\<open>graph[id(pos_1)].sequence.size() - offset(pos_1)\<close>, taken right after the node was
      stored with the sequence of the source\<close>
  "first_traversal_length source p1 =
     int (length (get_sequence source (get_handle (pos_id p1) False))) - offset p1"

definition forward_phase :: "HandleGraph \<Rightarrow> int \<Rightarrow> bool \<Rightarrow> bool \<Rightarrow> ecg_state
    \<Rightarrow> ecg_state option" where
  "forward_phase source max_len include_terminal_positions detect_terminal_cycles st =
     (let p1 = pos_1 st; p2 = pos_2 st;
          colocation = colocation_of p1 p2 include_terminal_positions;
          skip_handles = get_handle (pos_id p1) (is_rev p1)
            # (if \<not> (colocation = SharedNodeReverse \<and> detect_terminal_cycles)
               then [get_handle (pos_id p2) (is_rev p2)] else []);
          forward_max_len = max_len - offset p2
      in if colocation = SharedNodeReachable
         then Some (st\<lparr>found_target := (offset p2 - offset p1 \<le> max_len)\<rparr>)
         else forward_search source p2 skip_handles forward_max_len
                (if first_traversal_length source p1 \<le> forward_max_len
                 then st\<lparr>queue := fpq_emplace (queue st) (get_handle (pos_id p1) (is_rev p1))
                                    (first_traversal_length source p1)\<rparr>
                 else st))"

definition backward_phase :: "HandleGraph \<Rightarrow> int \<Rightarrow> bool \<Rightarrow> bool \<Rightarrow> ecg_state
    \<Rightarrow> ecg_state option" where
  "backward_phase source max_len include_terminal_positions detect_terminal_cycles st =
     (let p1 = pos_1 st; p2 = pos_2 st;
          colocation = colocation_of p1 p2 include_terminal_positions;
          last_traversal_length = offset p2;
          forward_max_len = max_len - last_traversal_length;
          backward_max_len = max_len - first_traversal_length source p1
      in if detect_terminal_cycles
            \<and> (colocation = SeparateNodes \<or> colocation = SharedNodeReachable)
         then backward_search source
                [get_handle (pos_id p2) (\<not> is_rev p2), get_handle (pos_id p1) (\<not> is_rev p1)]
                forward_max_len
                (st\<lparr>queue := (if last_traversal_length \<le> backward_max_len
                               then fpq_emplace fpq_new (get_handle (pos_id p2) (\<not> is_rev p2))
                                      last_traversal_length
                               else fpq_new)\<rparr>)
         else Some st)"

definition extract_connecting_graph :: "HandleGraph \<Rightarrow> Graph \<Rightarrow> int \<Rightarrow> pos_t \<Rightarrow> pos_t
    \<Rightarrow> bool \<Rightarrow> bool \<Rightarrow> bool \<Rightarrow> bool \<Rightarrow> bool
    \<Rightarrow> (error + id_map \<times> Graph) option" where
  "extract_connecting_graph source g max_len p1 p2 include_terminal_positions
       detect_terminal_cycles no_additional_tips only_paths strict_max_len =
     (if node g \<noteq> [] \<or> edge g \<noteq> [] then Some (Inl NonEmptyGraph)
      else
        (let colocation = colocation_of p1 p2 include_terminal_positions in
         case forward_phase source max_len include_terminal_positions detect_terminal_cycles
                (init_state source p1 p2) of
           None \<Rightarrow> None
         | Some st1 \<Rightarrow>
            if \<not> found_target st1 then Some (Inr (id_trans st1, g))
            else
              (case backward_phase source max_len include_terminal_positions
                      detect_terminal_cycles st1 of
                 None \<Rightarrow> None
               | Some st2 \<Rightarrow>
                  (case bind_err
                          (duplicate_nodes include_terminal_positions detect_terminal_cycles
                             colocation (st2\<lparr>next_id := max_id st2 + 1\<rparr>))
                          (cut_nodes include_terminal_positions colocation) of
                     Inl e \<Rightarrow> Some (Inl e)
                   | Inr st4 \<Rightarrow>
                      (case prune max_len no_additional_tips only_paths strict_max_len st4 of
                         None \<Rightarrow> None
                       | Some st5 \<Rightarrow>
                          Some (Inr (complete_id_trans (graph st5) (id_trans st5),
                                     emit (graph st5) g)))))))"

section \<open>Source graphs for concrete runs\<close>

text \<open>
  Modelled from the spec: the implementations of the handle-graph capability are outside
  the files at hand. For a concrete run the capability is built from a list of nodes with
  their forward sequences and a list of oriented edges (from handle, to handle).
  \<open>follow_edges h false\<close> lists the handles reached by leaving \<open>h\<close> on its forward side:
  an edge \<open>(a, b)\<close> can be followed from \<open>a\<close> to \<open>b\<close> and from \<open>b\<close> flipped to \<open>a\<close>
  flipped. \<open>edge_handle\<close> canonicalises an oriented edge so that \<open>(a, b)\<close> and (\<open>b\<close>
  flipped, \<open>a\<close> flipped) map to the same value, here the smaller pair.
\<close>

definition flip :: "handle_t \<Rightarrow> handle_t" where
  "flip h = (fst h, \<not> snd h)"

definition complement :: "char \<Rightarrow> char" where
  "complement c =
     (if c = CHR ''A'' then CHR ''T'' else if c = CHR ''T'' then CHR ''A''
      else if c = CHR ''C'' then CHR ''G'' else if c = CHR ''G'' then CHR ''C'' else c)"

definition as_integer :: "handle_t \<Rightarrow> int" where
  "as_integer h = 2 * fst h + of_bool (snd h)"

definition canonical_edge_of :: "handle_t \<Rightarrow> handle_t \<Rightarrow> handle_t \<times> handle_t" where
  "canonical_edge_of l r =
     (if as_integer l > as_integer (flip r) then (flip r, flip l)
      else if as_integer l = as_integer (flip r) \<and> as_integer r > as_integer (flip l)
      then (flip r, flip l)
      else (l, r))"

definition edge_targets :: "handle_t \<Rightarrow> handle_t \<times> handle_t \<Rightarrow> handle_t list" where
  "edge_targets h e =
     (if fst e = h then [snd e]
      else if flip (snd e) = h then [flip (fst e)]
      else [])"

definition list_graph :: "(id_t \<times> string) list \<Rightarrow> (handle_t \<times> handle_t) list \<Rightarrow> HandleGraph"
  where
  "list_graph ns es =
     \<lparr>get_sequence = (\<lambda>h. case map_of ns (fst h) of
                            None \<Rightarrow> []
                          | Some s \<Rightarrow> if snd h then rev (map complement s) else s),
      follow_edges = (\<lambda>h go_left.
                        if go_left then map flip (concat (map (edge_targets (flip h)) es))
                        else concat (map (edge_targets h) es)),
      edge_handle = canonical_edge_of\<rparr>"

text \<open>The linear chain 1 (ACGT), 2 (GGGG), 3 (TTTT) with the edges 1 to 2 and 2 to 3.\<close>

definition chain_graph :: HandleGraph where
  "chain_graph = list_graph [(1, ''ACGT''), (2, ''GGGG''), (3, ''TTTT'')]
                   [((1, False), (2, False)), ((2, False), (3, False))]"

text \<open>Whether the target was found by the end of step 1, if step 1 ends.\<close>

definition found_target_after_forward :: "HandleGraph \<Rightarrow> int \<Rightarrow> pos_t \<Rightarrow> pos_t \<Rightarrow> bool \<Rightarrow> bool
    \<Rightarrow> bool option" where
  "found_target_after_forward source max_len p1 p2 include_terminal_positions
       detect_terminal_cycles =
     map_option found_target
       (forward_phase source max_len include_terminal_positions detect_terminal_cycles
          (init_state source p1 p2))"

text \<open>
  A predecessor spur: 1 (ACGTACGT) to 2 (CC), with 3 (GGGG) to 2 and 4 (TT) to 3 behind
  node 2.
\<close>

definition spur_graph :: HandleGraph where
  "spur_graph = list_graph [(1, ''ACGTACGT''), (2, ''CC''), (3, ''GGGG''), (4, ''TT'')]
                  [((1, False), (2, False)), ((3, False), (2, False)), ((4, False), (3, False))]"

text \<open>
  A target in a cycle: 1 (AC) to 2 (GT) to 3 (TT), and a reversing self loop on the left
  side of node 2.
\<close>

definition loop_graph :: HandleGraph where
  "loop_graph = list_graph [(1, ''AC''), (2, ''GT''), (3, ''TT'')]
                  [((1, False), (2, False)), ((2, True), (2, False)), ((2, False), (3, False))]"




text \<open>
  A node map with an ordinary edge between 1 and 2 and between 2 and 3, a reversing self
  loop on the left side of node 2 and a non-reversing self loop on node 3.
\<close>

definition looped_map :: node_map where
  "looped_map =
     [(1, \<lparr>sequence = ''AC'', edges_left = [], edges_right = [(2, False)]\<rparr>),
      (2, \<lparr>sequence = ''GT'', edges_left = [(1, False), (2, True)],
            edges_right = [(3, False)]\<rparr>),
      (3, \<lparr>sequence = ''TT'', edges_left = [(2, False), (3, False)],
            edges_right = [(3, False)]\<rparr>)]"

section \<open>Notions the properties are stated with\<close>

text \<open>The state after steps 1 and 2, and the node map after step 3, when the target is found.\<close>

definition state_after_searches :: "HandleGraph \<Rightarrow> int \<Rightarrow> pos_t \<Rightarrow> pos_t \<Rightarrow> bool \<Rightarrow> bool
    \<Rightarrow> ecg_state option" where
  "state_after_searches source max_len p1 p2 include_terminal_positions detect_terminal_cycles =
     (case forward_phase source max_len include_terminal_positions detect_terminal_cycles
             (init_state source p1 p2) of
        None \<Rightarrow> None
      | Some st1 \<Rightarrow>
          if \<not> found_target st1 then None
          else backward_phase source max_len include_terminal_positions
                 detect_terminal_cycles st1)"

definition map_after_duplication :: "HandleGraph \<Rightarrow> int \<Rightarrow> pos_t \<Rightarrow> pos_t \<Rightarrow> bool \<Rightarrow> bool
    \<Rightarrow> node_map option" where
  "map_after_duplication source max_len p1 p2 include_terminal_positions detect_terminal_cycles =
     (case state_after_searches source max_len p1 p2 include_terminal_positions
             detect_terminal_cycles of
        None \<Rightarrow> None
      | Some st2 \<Rightarrow>
          (case duplicate_nodes include_terminal_positions detect_terminal_cycles
                  (colocation_of p1 p2 include_terminal_positions)
                  (st2\<lparr>next_id := max_id st2 + 1\<rparr>) of
             Inl e \<Rightarrow> None
           | Inr st3 \<Rightarrow> Some (graph st3)))"

text \<open>
  The edge-mirror invariant. An entry \<open>(b, r)\<close> in the list of side \<open>sd\<close> of node \<open>a\<close>
  stands for an edge between the end \<open>(a, sd)\<close> and the end \<open>(b, sd')\<close>, where \<open>sd'\<close> is
  \<open>sd\<close> when the edge is reversing and the opposite side otherwise. Its mirror is the
  entry \<open>(a, r)\<close> in the list of side \<open>sd'\<close> of \<open>b\<close>. The invariant asks every entry
  to have its mirror, as often as it occurs itself; a reversing self loop, whose two ends
  coincide, is stored once and has no mirror.
\<close>

type_synonym node_end = "id_t \<times> side"

fun opposite :: "side \<Rightarrow> side" where
  "opposite LeftSide = RightSide"
| "opposite RightSide = LeftSide"

definition mirror_side :: "side \<Rightarrow> bool \<Rightarrow> side" where
  "mirror_side sd reversing = (if reversing then sd else opposite sd)"

definition entry_count :: "node_map \<Rightarrow> id_t \<Rightarrow> side \<Rightarrow> local_edge \<Rightarrow> nat" where
  "entry_count g a sd e = count_list (edges_on sd (g_at g a)) e"

definition mirrored :: "node_map \<Rightarrow> id_t \<Rightarrow> side \<Rightarrow> local_edge \<Rightarrow> bool" where
  "mirrored g a sd e =
     ((fst e = a \<and> snd e)
      \<or> entry_count g a sd e = entry_count g (fst e) (mirror_side sd (snd e)) (a, snd e))"

definition edge_mirror_invariant :: "node_map \<Rightarrow> bool" where
  "edge_mirror_invariant g =
     (\<forall>a \<in> set (um_keys g). \<forall>sd \<in> {LeftSide, RightSide}.
        \<forall>e \<in> set (edges_on sd (g_at g a)). mirrored g a sd e)"

text \<open>The two ends an entry joins, the two ends an output edge joins, and how often the
  output holds an edge between two given ends.\<close>

definition entry_ends :: "id_t \<Rightarrow> side \<Rightarrow> local_edge \<Rightarrow> node_end set" where
  "entry_ends a sd e = {(a, sd), (fst e, mirror_side sd (snd e))}"

definition edge_ends :: "Edge \<Rightarrow> node_end set" where
  "edge_ends e = {(from_id e, if from_start e then LeftSide else RightSide),
                  (to_id e, if to_end e then RightSide else LeftSide)}"

definition emitted_count :: "Graph \<Rightarrow> node_end set \<Rightarrow> nat" where
  "emitted_count out ends = length (filter (\<lambda>e. edge_ends e = ends) (edge out))"

text \<open>The emission rule for an entry \<open>e\<close> of the list of side \<open>s\<close> of node \<open>k\<close>.\<close>

definition emit_rule :: "id_t \<Rightarrow> side \<Rightarrow> local_edge \<Rightarrow> bool" where
  "emit_rule k s e =
     (case s of LeftSide \<Rightarrow> fst e > k \<or> (fst e = k \<and> snd e) | RightSide \<Rightarrow> fst e \<ge> k)"

text \<open>How many of the edges emitted for node \<open>k\<close> join the given ends.\<close>

definition contribution :: "node_map \<Rightarrow> node_end set \<Rightarrow> id_t \<Rightarrow> nat" where
  "contribution g ends k =
     length (filter (\<lambda>x. edge_ends x = ends) (emit_edges (k, g_at g k)))"

text \<open>Every id the translator knows is a node of the map.\<close>

definition trans_in_graph :: "ecg_state \<Rightarrow> bool" where
  "trans_in_graph st = (set (um_keys (id_trans st)) \<subseteq> set (um_keys (graph st)))"

text \<open>The sequence stored for a node id (empty for an id that is not in the map).\<close>

definition node_sequence :: "node_map \<Rightarrow> id_t \<Rightarrow> string" where
  "node_sequence g k = sequence (g_at g k)"



text \<open>
  During the searches: node \<open>k\<close> is in the map with the sequence \<open>x\<close>, its id is at most
  \<open>max_id\<close>, and the two positions are \<open>a\<close> and \<open>b\<close>.
\<close>

definition kept :: "id_t \<Rightarrow> string \<Rightarrow> pos_t \<Rightarrow> pos_t \<Rightarrow> ecg_state \<Rightarrow> bool" where
  "kept k x a b s =
     (k \<in> set (um_keys (graph s)) \<and> node_sequence (graph s) k = x \<and> k \<le> max_id s
      \<and> pos_1 s = a \<and> pos_2 s = b)"


section \<open>Loop invariants\<close>

lemma fold_invariant:
  assumes "\<And>x s. I s \<Longrightarrow> I (f x s)" and "I s"
  shows "I (fold f xs s)"
  using assms(2) by (induction xs arbitrary: s) (auto intro: assms(1))

lemma forward_search_invariant:
  assumes run: "forward_search source p2 sk fml st = Some st'"
    and init: "I st"
    and step: "\<And>s trav nxt. I s \<Longrightarrow> I (forward_edge source p2 sk fml trav nxt s)"
    and pop: "\<And>s q. I s \<Longrightarrow> I (s\<lparr>queue := q\<rparr>)"
  shows "I st'"
proof -
  let ?P = "\<lambda>src q2 k f s s'.
      (\<forall>s trav nxt. I s \<longrightarrow> I (forward_edge src q2 k f trav nxt s)) \<longrightarrow> I s \<longrightarrow> I s'"
  have "?P source p2 sk fml st st'"
  proof (rule forward_search.raw_induct[where P = ?P, OF _ run], intro impI)
    fix rec_call src q2 k f s s'
    assume ih: "\<And>q2 k f s b y. rec_call q2 k f s b = Some y \<Longrightarrow> ?P q2 k f s b y"
      and body: "(if fpq_empty (queue s) then Some s
          else let trav = fpq_top (queue s); st1 = s\<lparr>queue := fpq_pop (queue s)\<rparr>
               in rec_call src q2 k f
                    (fold (forward_edge src q2 k f trav) (follow_edges src (fst trav) False) st1))
          = Some s'"
      and step': "\<forall>s trav nxt. I s \<longrightarrow> I (forward_edge src q2 k f trav nxt s)"
      and i: "I s"
    show "I s'"
    proof (cases "fpq_empty (queue s)")
      case True
      with body i show ?thesis by simp
    next
      case False
      let ?trav = "fpq_top (queue s)"
      let ?next = "fold (forward_edge src q2 k f ?trav) (follow_edges src (fst ?trav) False)
                      (s\<lparr>queue := fpq_pop (queue s)\<rparr>)"
      from False body have r: "rec_call src q2 k f ?next = Some s'"
        by (simp add: Let_def)
      have n: "I ?next"
      proof (rule fold_invariant)
        fix x t assume "I t"
        with step' show "I (forward_edge src q2 k f ?trav x t)" by blast
      next
        from pop i show "I (s\<lparr>queue := fpq_pop (queue s)\<rparr>)" by blast
      qed
      from ih[OF r] step' n show ?thesis by (elim impE) assumption+
    qed
  qed
  moreover have "\<forall>s trav nxt. I s \<longrightarrow> I (forward_edge source p2 sk fml trav nxt s)"
    using step by (intro allI impI)
  ultimately show ?thesis using init by (elim impE) assumption+
qed

lemma record_edge_id_trans [simp]: "id_trans (record_edge source trav nxt st) = id_trans st"
  by (simp add: record_edge_def Let_def)

lemma ensure_node_id_trans [simp]: "id_trans (ensure_node source nxt st) = id_trans st"
  by (simp add: ensure_node_def)

lemma enqueue_within_id_trans [simp]: "id_trans (enqueue_within sk lim trav nxt st) = id_trans st"
  by (simp add: enqueue_within_def Let_def)

lemma forward_edge_id_trans [simp]:
  "id_trans (forward_edge source p2 sk fml trav nxt st) = id_trans st"
  by (simp add: forward_edge_def Let_def)

lemma forward_phase_id_trans:
  assumes "forward_phase source max_len itp dtc st = Some st'"
  shows "id_trans st' = id_trans st"
proof (cases "colocation_of (pos_1 st) (pos_2 st) itp = SharedNodeReachable")
  case True
  with assms show ?thesis by (auto simp: forward_phase_def Let_def)
next
  case False
  with assms obtain st0 where
    run: "forward_search source (pos_2 st)
            (get_handle (pos_id (pos_1 st)) (is_rev (pos_1 st))
             # (if \<not> (colocation_of (pos_1 st) (pos_2 st) itp = SharedNodeReverse \<and> dtc)
                then [get_handle (pos_id (pos_2 st)) (is_rev (pos_2 st))] else []))
            (max_len - offset (pos_2 st)) st0 = Some st'"
    and st0: "id_trans st0 = id_trans st"
    by (auto simp: forward_phase_def Let_def split: if_splits)
  from run st0 show ?thesis
    by (rule forward_search_invariant [where I = "\<lambda>s. id_trans s = id_trans st"]) simp_all
qed

lemma fold_err_invariant:
  assumes "\<And>x s s'. I s \<Longrightarrow> f x s = Inr s' \<Longrightarrow> I s'" and "I s" and "fold_err f xs s = Inr s'"
  shows "I s'"
  using assms(2,3)
proof (induction xs arbitrary: s)
  case Nil
  then show ?case by simp
next
  case (Cons x xs)
  then show ?case
    by (auto split: sum.splits dest: assms(1))
qed

lemma bind_err_Inr: "bind_err x f = Inr y \<longleftrightarrow> (\<exists>v. x = Inr v \<and> f v = Inr y)"
  by (cases x) (simp_all add: bind_err_def)

subsection \<open>Keys of the node map\<close>

lemma keys_um_assign [simp]: "set (um_keys (um_assign g k v)) = insert k (set (um_keys g))"
  by (induction g) (auto simp: um_keys_def)

lemma keys_um_erase [simp]: "set (um_keys (um_erase g k)) = set (um_keys g) - {k}"
  by (auto simp: um_keys_def um_erase_def)

lemma um_count_keys: "um_count g k \<longleftrightarrow> k \<in> set (um_keys g)"
  by (simp add: um_count_def um_keys_def map_of_eq_None_iff)

lemma keys_g_modify [simp]: "set (um_keys (g_modify g k f)) = insert k (set (um_keys g))"
  by (simp add: g_modify_def)

lemma keys_emplace_back [simp]:
  "set (um_keys (emplace_back g k sd e)) = insert k (set (um_keys g))"
  by (simp add: emplace_back_def)

lemma keys_set_edge_first [simp]:
  "set (um_keys (set_edge_first g k sd i n)) = insert k (set (um_keys g))"
  by (simp add: set_edge_first_def)

lemma keys_clear_edges [simp]: "set (um_keys (clear_edges g k sd)) = insert k (set (um_keys g))"
  by (simp add: clear_edges_def)

lemma keys_set_node_sequence [simp]:
  "set (um_keys (set_node_sequence g k s)) = insert k (set (um_keys g))"
  by (simp add: set_node_sequence_def)

lemma keys_move_edges [simp]:
  "set (um_keys (move_edges g a sa b sb)) = insert a (insert b (set (um_keys g)))"
  by (simp add: move_edges_def Let_def)

lemma keys_relabel_found:
  "relabel_found g k sd e n = Inr g' \<Longrightarrow> set (um_keys g') = insert k (set (um_keys g))"
  by (auto simp: relabel_found_def split: option.splits)

lemma keys_erase_found:
  "erase_found g k sd e = Inr g' \<Longrightarrow> set (um_keys g') = insert k (set (um_keys g))"
  by (auto simp: erase_found_def split: option.splits)

lemma keys_filter_edges [simp]: "um_keys (filter_edges kn kl kr g) = um_keys g"
  by (simp add: filter_edges_def um_keys_def o_def if_distrib cong: if_cong)

lemma keys_drop_dangling [simp]: "um_keys (drop_dangling g) = um_keys g"
  by (simp add: drop_dangling_def um_keys_def o_def)

subsection \<open>Loop bodies keep the keys\<close>

lemma keys_dup_sep_right:
  "K \<subseteq> set (um_keys (fst gb)) \<Longrightarrow> K \<subseteq> set (um_keys (fst (dup_sep_right p nid i gb)))"
  by (auto simp: dup_sep_right_def Let_def)

lemma keys_fold_dup_sep_right:
  "K \<subseteq> set (um_keys (fst gb)) \<Longrightarrow> K \<subseteq> set (um_keys (fst (fold (dup_sep_right p nid) is gb)))"
  by (rule fold_invariant [where I = "\<lambda>gb. K \<subseteq> set (um_keys (fst gb))"]) (rule keys_dup_sep_right)

lemma keys_dup_cycle_righthand:
  "K \<subseteq> set (um_keys (fst gb)) \<Longrightarrow> K \<subseteq> set (um_keys (fst (dup_cycle_righthand rev1 rid lid cid i gb)))"
  by (auto simp: dup_cycle_righthand_def Let_def)

lemma keys_fold_dup_cycle_righthand:
  "K \<subseteq> set (um_keys (fst gb)) \<Longrightarrow> K \<subseteq> set (um_keys (fst (fold (dup_cycle_righthand rev1 rid lid cid) is gb)))"
  by (rule fold_invariant [where I = "\<lambda>gb. K \<subseteq> set (um_keys (fst gb))"]) (rule keys_dup_cycle_righthand)

lemma keys_dup_unreach_out:
  "K \<subseteq> set (um_keys (fst gb)) \<Longrightarrow> K \<subseteq> set (um_keys (fst (dup_unreach_out p1 rev1 cid i gb)))"
  by (auto simp: dup_unreach_out_def Let_def)

lemma keys_fold_dup_unreach_out:
  "K \<subseteq> set (um_keys (fst gb)) \<Longrightarrow> K \<subseteq> set (um_keys (fst (fold (dup_unreach_out p1 rev1 cid) is gb)))"
  by (rule fold_invariant [where I = "\<lambda>gb. K \<subseteq> set (um_keys (fst gb))"]) (rule keys_dup_unreach_out)

lemma keys_dup_reverse_out:
  "K \<subseteq> set (um_keys (fst gbb)) \<Longrightarrow> K \<subseteq> set (um_keys (fst (dup_reverse_out p1 rev1 cid i gbb)))"
  by (auto simp: dup_reverse_out_def Let_def)

lemma keys_fold_dup_reverse_out:
  "K \<subseteq> set (um_keys (fst gbb)) \<Longrightarrow> K \<subseteq> set (um_keys (fst (fold (dup_reverse_out p1 rev1 cid) is gbb)))"
  by (rule fold_invariant [where I = "\<lambda>gb. K \<subseteq> set (um_keys (fst gb))"]) (rule keys_dup_reverse_out)

lemma keys_dup_sep_1_left:
  "K \<subseteq> set (um_keys g) \<Longrightarrow> K \<subseteq> set (um_keys (dup_sep_1_left p1 nid i g))"
  by (auto simp: dup_sep_1_left_def Let_def split: option.splits)

lemma keys_fold_dup_sep_1_left:
  "K \<subseteq> set (um_keys g) \<Longrightarrow> K \<subseteq> set (um_keys (fold (dup_sep_1_left p1 nid) is g))"
  by (rule fold_invariant [where I = "\<lambda>g. K \<subseteq> set (um_keys g)"]) (rule keys_dup_sep_1_left)

lemma keys_dup_sep_2_left:
  "K \<subseteq> set (um_keys g) \<Longrightarrow> K \<subseteq> set (um_keys (dup_sep_2_left p1 p2 nid i g))"
  by (auto simp: dup_sep_2_left_def Let_def split: option.splits)

lemma keys_fold_dup_sep_2_left:
  "K \<subseteq> set (um_keys g) \<Longrightarrow> K \<subseteq> set (um_keys (fold (dup_sep_2_left p1 p2 nid) is g))"
  by (rule fold_invariant [where I = "\<lambda>g. K \<subseteq> set (um_keys g)"]) (rule keys_dup_sep_2_left)

lemma keys_dup_cycle_lefthand:
  "K \<subseteq> set (um_keys g) \<Longrightarrow> K \<subseteq> set (um_keys (dup_cycle_lefthand rev1 rid lid cid i g))"
  by (auto simp: dup_cycle_lefthand_def Let_def split: option.splits)

lemma keys_fold_dup_cycle_lefthand:
  "K \<subseteq> set (um_keys g) \<Longrightarrow> K \<subseteq> set (um_keys (fold (dup_cycle_lefthand rev1 rid lid cid) is g))"
  by (rule fold_invariant [where I = "\<lambda>g. K \<subseteq> set (um_keys g)"]) (rule keys_dup_cycle_lefthand)

lemma keys_dup_unreach_in:
  "K \<subseteq> set (um_keys g) \<Longrightarrow> K \<subseteq> set (um_keys (dup_unreach_in p1 rev1 cid i g))"
  by (auto simp: dup_unreach_in_def Let_def split: option.splits)

lemma keys_fold_dup_unreach_in:
  "K \<subseteq> set (um_keys g) \<Longrightarrow> K \<subseteq> set (um_keys (fold (dup_unreach_in p1 rev1 cid) is g))"
  by (rule fold_invariant [where I = "\<lambda>g. K \<subseteq> set (um_keys g)"]) (rule keys_dup_unreach_in)

lemma keys_dup_reverse_in:
  "K \<subseteq> set (um_keys g) \<Longrightarrow> K \<subseteq> set (um_keys (dup_reverse_in p1 rev1 cid i g))"
  by (auto simp: dup_reverse_in_def Let_def split: option.splits)

lemma keys_fold_dup_reverse_in:
  "K \<subseteq> set (um_keys g) \<Longrightarrow> K \<subseteq> set (um_keys (fold (dup_reverse_in p1 rev1 cid) is g))"
  by (rule fold_invariant [where I = "\<lambda>g. K \<subseteq> set (um_keys g)"]) (rule keys_dup_reverse_in)

lemma keys_relabel_split:
  "K \<subseteq> set (um_keys g) \<Longrightarrow> K \<subseteq> set (um_keys (relabel_split p1 nid i g))"
  by (auto simp: relabel_split_def Let_def split: option.splits)

lemma keys_fold_relabel_split:
  "K \<subseteq> set (um_keys g) \<Longrightarrow> K \<subseteq> set (um_keys (fold (relabel_split p1 nid) is g))"
  by (rule fold_invariant [where I = "\<lambda>g. K \<subseteq> set (um_keys g)"]) (rule keys_relabel_split)

lemma keys_sink_edges:
  "K \<subseteq> set (um_keys g) \<Longrightarrow> K \<subseteq> set (um_keys (sink_edges p1 rev1 nid i g))"
  by (auto simp: sink_edges_def Let_def split: option.splits)

lemma keys_fold_sink_edges:
  "K \<subseteq> set (um_keys g) \<Longrightarrow> K \<subseteq> set (um_keys (fold (sink_edges p1 rev1 nid) is g))"
  by (rule fold_invariant [where I = "\<lambda>g. K \<subseteq> set (um_keys g)"]) (rule keys_sink_edges)

lemma keys_relabel_righthand:
  "K \<subseteq> set (um_keys g) \<Longrightarrow> relabel_righthand p1 rev1 rid i g = Inr g' \<Longrightarrow> K \<subseteq> set (um_keys g')"
  by (auto simp: relabel_righthand_def Let_def split: if_splits dest!: keys_relabel_found keys_erase_found)

lemma keys_fold_relabel_righthand:
  "K \<subseteq> set (um_keys g) \<Longrightarrow> fold_err (relabel_righthand p1 rev1 rid) is g = Inr g' \<Longrightarrow> K \<subseteq> set (um_keys g')"
  by (rule fold_err_invariant [where I = "\<lambda>g. K \<subseteq> set (um_keys g)"]) (rule keys_relabel_righthand)

lemma keys_relabel_lefthand:
  "K \<subseteq> set (um_keys g) \<Longrightarrow> relabel_lefthand p1 rev1 lid i g = Inr g' \<Longrightarrow> K \<subseteq> set (um_keys g')"
  by (auto simp: relabel_lefthand_def Let_def split: if_splits dest!: keys_relabel_found keys_erase_found)

lemma keys_fold_relabel_lefthand:
  "K \<subseteq> set (um_keys g) \<Longrightarrow> fold_err (relabel_lefthand p1 rev1 lid) is g = Inr g' \<Longrightarrow> K \<subseteq> set (um_keys g')"
  by (rule fold_err_invariant [where I = "\<lambda>g. K \<subseteq> set (um_keys g)"]) (rule keys_relabel_lefthand)

lemma keys_cut_backrefs:
  "K \<subseteq> set (um_keys g) \<Longrightarrow> cut_backrefs k sd p bw i g = Inr g' \<Longrightarrow> K \<subseteq> set (um_keys g')"
  by (auto simp: cut_backrefs_def Let_def split: if_splits dest!: keys_relabel_found keys_erase_found)

lemma keys_fold_cut_backrefs:
  "K \<subseteq> set (um_keys g) \<Longrightarrow> fold_err (cut_backrefs k sd p bw) is g = Inr g' \<Longrightarrow> K \<subseteq> set (um_keys g')"
  by (rule fold_err_invariant [where I = "\<lambda>g. K \<subseteq> set (um_keys g)"]) (rule keys_cut_backrefs)


subsection \<open>The translator stays within the node map\<close>

lemma trans_duplicate_separate_1:
  assumes "trans_in_graph st"
  shows "trans_in_graph (duplicate_separate_1 st)"
proof -
  let ?K = "insert (next_id st) (set (um_keys (graph st)))"
  let ?p = "pos_id (pos_1 st)"
  let ?g0 = "um_assign (graph st) (next_id st) (new_LocalNode (sequence (g_at (graph st) ?p)))"
  let ?gb = "fold (dup_sep_right ?p (next_id st)) [0..<edge_count ?g0 ?p RightSide] (?g0, False)"
  let ?g1 = "fold (dup_sep_1_left ?p (next_id st)) [0..<edge_count (fst ?gb) ?p LeftSide] (fst ?gb)"
  have "?K \<subseteq> set (um_keys (fst ?gb))"
    by (rule keys_fold_dup_sep_right) auto
  then have "?K \<subseteq> set (um_keys ?g1)"
    by (rule keys_fold_dup_sep_1_left)
  with assms show ?thesis
    by (auto simp: trans_in_graph_def duplicate_separate_1_def Let_def)
qed


lemma trans_duplicate_separate_2:
  assumes "trans_in_graph st"
  shows "trans_in_graph (duplicate_separate_2 st)"
proof -
  let ?K = "insert (next_id st) (set (um_keys (graph st)))"
  let ?p = "pos_id (pos_2 st)"
  let ?g0 = "um_assign (graph st) (next_id st) (new_LocalNode (sequence (g_at (graph st) ?p)))"
  let ?gb = "fold (dup_sep_right ?p (next_id st)) [0..<edge_count ?g0 ?p RightSide] (?g0, False)"
  let ?g1 = "fold (dup_sep_2_left (pos_id (pos_1 st)) ?p (next_id st))
               [0..<edge_count (fst ?gb) ?p LeftSide] (fst ?gb)"
  have "?K \<subseteq> set (um_keys (fst ?gb))"
    by (rule keys_fold_dup_sep_right) auto
  then have "?K \<subseteq> set (um_keys ?g1)"
    by (rule keys_fold_dup_sep_2_left)
  with assms show ?thesis
    by (auto simp: trans_in_graph_def duplicate_separate_2_def Let_def)
qed

lemma trans_duplicate_shared_unreachable:
  assumes "trans_in_graph st"
  shows "trans_in_graph (duplicate_shared_unreachable st)"
proof -
  let ?K = "insert (next_id st) (set (um_keys (graph st)))"
  let ?p = "pos_id (pos_1 st)"
  let ?r = "is_rev (pos_1 st)"
  let ?g0 = "um_assign (graph st) (next_id st) (new_LocalNode (sequence (g_at (graph st) ?p)))"
  let ?gb = "fold (dup_unreach_out ?p ?r (next_id st)) [0..<edge_count ?g0 ?p (left_if ?r)]
               (?g0, False)"
  let ?g1 = "fold (dup_unreach_in ?p ?r (next_id st)) [0..<edge_count (fst ?gb) ?p (right_if ?r)]
               (fst ?gb)"
  have "?K \<subseteq> set (um_keys (fst ?gb))"
    by (rule keys_fold_dup_unreach_out) auto
  then have "?K \<subseteq> set (um_keys ?g1)"
    by (rule keys_fold_dup_unreach_in)
  with assms show ?thesis
    by (auto simp: trans_in_graph_def duplicate_shared_unreachable_def Let_def)
qed

lemma trans_duplicate_shared_reverse:
  assumes "trans_in_graph st"
  shows "trans_in_graph (duplicate_shared_reverse st)"
proof -
  let ?K = "insert (next_id st) (set (um_keys (graph st)))"
  let ?p = "pos_id (pos_1 st)"
  let ?r = "is_rev (pos_1 st)"
  let ?g0 = "um_assign (graph st) (next_id st) (new_LocalNode (sequence (g_at (graph st) ?p)))"
  let ?gb = "fold (dup_reverse_out ?p ?r (next_id st)) [0..<edge_count ?g0 ?p (left_if ?r)]
               (?g0, False, False)"
  let ?g1 = "fold (dup_reverse_in ?p ?r (next_id st)) [0..<edge_count (fst ?gb) ?p (right_if ?r)]
               (fst ?gb)"
  have "?K \<subseteq> set (um_keys (fst ?gb))"
    by (rule keys_fold_dup_reverse_out) auto
  then have "?K \<subseteq> set (um_keys ?g1)"
    by (rule keys_fold_dup_reverse_in)
  with assms show ?thesis
    by (auto simp: trans_in_graph_def duplicate_shared_reverse_def Let_def)
qed

lemma trans_duplicate_shared_reachable:
  assumes "trans_in_graph st" and "duplicate_shared_reachable itp st = Inr st'"
  shows "trans_in_graph st'"
proof -
  let ?p = "pos_id (pos_1 st)"
  let ?r = "is_rev (pos_1 st)"
  let ?rid = "next_id st"
  let ?lid = "next_id st + 1"
  let ?cid = "next_id st + 2"
  from assms(2) obtain rseq g2 lseq g5 where
    g2: "fold_err (relabel_righthand ?p ?r ?rid)
           [0..<edge_count (move_edges (um_assign (graph st) ?rid (new_LocalNode rseq))
                              ?p (left_if ?r) ?rid (left_if ?r)) ?rid (left_if ?r)]
           (move_edges (um_assign (graph st) ?rid (new_LocalNode rseq))
              ?p (left_if ?r) ?rid (left_if ?r)) = Inr g2"
    and g5: "fold_err (relabel_lefthand ?p ?r ?lid)
           [0..<edge_count (move_edges (um_assign g2 ?lid (new_LocalNode lseq))
                              ?p (right_if ?r) ?lid (right_if ?r)) ?lid (right_if ?r)]
           (move_edges (um_assign g2 ?lid (new_LocalNode lseq))
              ?p (right_if ?r) ?lid (right_if ?r)) = Inr g5"
    and st': "st' = (let g6 = um_assign g5 ?cid (new_LocalNode (sequence (g_at g5 ?p)));
                  gb = fold (dup_cycle_righthand ?r ?rid ?lid ?cid)
                         [0..<edge_count g6 ?rid (left_if ?r)] (g6, False);
                  g7 = fold (dup_cycle_lefthand ?r ?rid ?lid ?cid)
                         [0..<edge_count (fst gb) ?lid (right_if ?r)] (fst gb);
                  g8 = (if snd gb then
                          (let a = emplace_back g7 ?rid (left_if ?r) (?cid, False);
                               b = emplace_back a ?cid (right_if ?r) (?rid, False);
                               c = emplace_back b ?lid (right_if ?r) (?cid, False);
                               d = emplace_back c ?cid (left_if ?r) (?lid, False);
                               e = emplace_back d ?cid (left_if ?r) (?cid, False)
                           in emplace_back e ?cid (right_if ?r) (?cid, False))
                        else g7)
              in st\<lparr>graph := g8,
                     id_trans := um_assign (um_assign (um_assign (id_trans st)
                                       ?rid ?p) ?lid ?p) ?cid ?p,
                     next_id := ?cid + 1,
                     duplicate_node_1 := ?rid,
                     duplicate_node_2 := ?lid\<rparr>)"
    by (auto simp: duplicate_shared_reachable_def Let_def bind_err_Inr)
  let ?K1 = "insert ?rid (set (um_keys (graph st)))"
  have "?K1 \<subseteq> set (um_keys g2)"
    by (rule keys_fold_relabel_righthand [OF _ g2]) auto
  then have "insert ?lid ?K1 \<subseteq> set (um_keys g5)"
    by (intro keys_fold_relabel_lefthand [OF _ g5]) auto
  then have k6: "insert ?cid (insert ?lid ?K1)
                 \<subseteq> set (um_keys (um_assign g5 ?cid (new_LocalNode (sequence (g_at g5 ?p)))))"
    by auto
  let ?g6 = "um_assign g5 ?cid (new_LocalNode (sequence (g_at g5 ?p)))"
  let ?gb = "fold (dup_cycle_righthand ?r ?rid ?lid ?cid)
               [0..<edge_count ?g6 ?rid (left_if ?r)] (?g6, False)"
  let ?g7 = "fold (dup_cycle_lefthand ?r ?rid ?lid ?cid)
               [0..<edge_count (fst ?gb) ?lid (right_if ?r)] (fst ?gb)"
  have "insert ?cid (insert ?lid ?K1) \<subseteq> set (um_keys (fst ?gb))"
    by (rule keys_fold_dup_cycle_righthand) (use k6 in simp)
  then have "insert ?cid (insert ?lid ?K1) \<subseteq> set (um_keys ?g7)"
    by (rule keys_fold_dup_cycle_lefthand)
  with assms(1) show ?thesis
    unfolding st' by (auto simp: trans_in_graph_def Let_def)
qed

lemma trans_duplicate_nodes:
  assumes "trans_in_graph st" and "duplicate_nodes itp dtc col st = Inr st'"
  shows "trans_in_graph st'"
  using assms
  by (cases col)
    (auto simp: duplicate_nodes_def Let_def split: if_splits
      intro: trans_duplicate_separate_1 trans_duplicate_separate_2
        trans_duplicate_shared_unreachable trans_duplicate_shared_reverse
      elim: trans_duplicate_shared_reachable)



lemma trans_cut_separate:
  assumes "trans_in_graph st" and "cut_separate itp st = Inr st'"
  shows "trans_in_graph st'"
proof -
  let ?p1 = "pos_id (pos_1 st)" let ?p2 = "pos_id (pos_2 st)"
  let ?r1 = "is_rev (pos_1 st)" let ?r2 = "is_rev (pos_2 st)"
  let ?g0 = "g_modify (g_modify (graph st) ?p1 (\<lambda>n. n)) ?p2 (\<lambda>n. n)"
  from assms(2) obtain g1 g2 s1 s2 where
    g1: "fold_err (cut_backrefs ?p1 (right_if ?r1) ?p1 (\<lambda>r. left_if (?r1 \<noteq> r)))
           [0..<edge_count ?g0 ?p1 (right_if ?r1)] ?g0 = Inr g1"
    and g2: "fold_err (cut_backrefs ?p2 (left_if ?r2) ?p2 (\<lambda>r. right_if (?r2 \<noteq> r)))
           [0..<edge_count g1 ?p2 (left_if ?r2)] g1 = Inr g2"
    and st': "st' = st\<lparr>graph := set_node_sequence
                 (set_node_sequence (clear_edges (clear_edges g2 ?p1 (right_if ?r1)) ?p2 (left_if ?r2))
                    ?p1 s1) ?p2 s2\<rparr>"
    by (auto simp: cut_separate_def Let_def bind_err_Inr)
  have "set (um_keys (graph st)) \<subseteq> set (um_keys g1)"
    by (rule keys_fold_cut_backrefs [OF _ g1]) auto
  then have "set (um_keys (graph st)) \<subseteq> set (um_keys g2)"
    by (rule keys_fold_cut_backrefs [OF _ g2])
  with assms(1) show ?thesis
    unfolding st' by (auto simp: trans_in_graph_def)
qed

lemma trans_cut_shared_reachable:
  assumes "trans_in_graph st" and "cut_shared_reachable itp st = Inr st'"
  shows "trans_in_graph st'"
proof -
  let ?p1 = "pos_id (pos_1 st)" let ?p2 = "pos_id (pos_2 st)"
  let ?r1 = "is_rev (pos_1 st)" let ?r2 = "is_rev (pos_2 st)"
  let ?g0 = "g_modify (graph st) ?p1 (\<lambda>n. n)"
  from assms(2) obtain g1 g2 s where
    g1: "fold_err (cut_backrefs ?p1 RightSide ?p1 (\<lambda>r. left_if (?r1 \<noteq> r)))
           [0..<edge_count ?g0 ?p1 RightSide] ?g0 = Inr g1"
    and g2: "fold_err (cut_backrefs ?p1 LeftSide ?p2 (\<lambda>r. right_if (?r2 \<noteq> r)))
           [0..<edge_count g1 ?p1 LeftSide] g1 = Inr g2"
    and st': "st' = st\<lparr>graph := set_node_sequence
                 (clear_edges (clear_edges g2 ?p1 RightSide) ?p1 LeftSide) ?p1 s\<rparr>"
    by (auto simp: cut_shared_reachable_def Let_def bind_err_Inr)
  have "set (um_keys (graph st)) \<subseteq> set (um_keys g1)"
    by (rule keys_fold_cut_backrefs [OF _ g1]) auto
  then have "set (um_keys (graph st)) \<subseteq> set (um_keys g2)"
    by (rule keys_fold_cut_backrefs [OF _ g2])
  with assms(1) show ?thesis
    unfolding st' by (auto simp: trans_in_graph_def)
qed

lemma trans_cut_shared_unreachable:
  assumes "trans_in_graph st" and "cut_shared_unreachable itp st = Inr st'"
  shows "trans_in_graph st'"
proof -
  let ?p1 = "pos_id (pos_1 st)"
  let ?nid = "next_id st"
  let ?g0 = "g_modify (graph st) ?p1 (\<lambda>n. n)"
  let ?g1 = "um_assign ?g0 ?nid (new_LocalNode (sequence (g_at ?g0 ?p1)))"
  let ?g2 = "move_edges ?g1 ?p1 RightSide ?nid RightSide"
  let ?g3 = "fold (relabel_split ?p1 ?nid) [0..<edge_count ?g2 ?nid RightSide] ?g2"
  let ?K = "insert ?nid (set (um_keys (graph st)))"
  have k3: "?K \<subseteq> set (um_keys ?g3)"
    by (rule keys_fold_relabel_split) auto
  from assms(2) obtain a s1 b s2 tr where
    "graph st' = set_node_sequence (set_node_sequence ?g3 a s1) b s2"
    "id_trans st' = um_assign (id_trans st) ?nid tr"
    by (auto simp: cut_shared_unreachable_def Let_def bind_err_Inr split: if_splits)
  with k3 assms(1) show ?thesis
    by (auto simp: trans_in_graph_def)
qed

lemma trans_cut_shared_reverse:
  assumes "trans_in_graph st" and "cut_shared_reverse itp st = Inr st'"
  shows "trans_in_graph st'"
proof -
  let ?p1 = "pos_id (pos_1 st)" let ?r1 = "is_rev (pos_1 st)"
  let ?nid = "next_id st"
  let ?g0 = "g_modify (graph st) ?p1 (\<lambda>n. n)"
  from assms(2) obtain g1 s1 s2 where
    g1: "fold_err (cut_backrefs ?p1 (right_if ?r1) ?p1 (\<lambda>r. left_if (?r1 \<noteq> r)))
           [0..<edge_count ?g0 ?p1 (right_if ?r1)] ?g0 = Inr g1"
    and st': "st' = (let g2 = clear_edges g1 ?p1 (right_if ?r1);
            g3 = um_assign g2 ?nid (new_LocalNode (sequence (g_at g2 ?p1)));
            g4 = fold (sink_edges ?p1 ?r1 ?nid) [0..<edge_count g3 ?p1 (left_if ?r1)] g3
        in st\<lparr>graph := set_node_sequence (set_node_sequence g4 ?p1 s1) ?nid s2,
                         id_trans := um_assign (id_trans st) ?nid ?p1,
                         pos_2 := set_pos_id (pos_2 st) ?nid,
                         next_id := ?nid + 1\<rparr>)"
    by (auto simp: cut_shared_reverse_def Let_def bind_err_Inr)
  have k1: "set (um_keys (graph st)) \<subseteq> set (um_keys g1)"
    by (rule keys_fold_cut_backrefs [OF _ g1]) auto
  let ?g2 = "clear_edges g1 ?p1 (right_if ?r1)"
  let ?g3 = "um_assign ?g2 ?nid (new_LocalNode (sequence (g_at ?g2 ?p1)))"
  let ?g4 = "fold (sink_edges ?p1 ?r1 ?nid) [0..<edge_count ?g3 ?p1 (left_if ?r1)] ?g3"
  have "insert ?nid (set (um_keys (graph st))) \<subseteq> set (um_keys ?g4)"
    by (rule keys_fold_sink_edges) (use k1 in auto)
  with assms(1) show ?thesis
    unfolding st' by (auto simp: trans_in_graph_def Let_def)
qed

lemma trans_cut_nodes:
  assumes "trans_in_graph st" and "cut_nodes itp col st = Inr st'"
  shows "trans_in_graph st'"
  using assms
  by (cases col)
    (auto simp: cut_nodes_def
      elim: trans_cut_separate trans_cut_shared_reachable trans_cut_shared_unreachable
        trans_cut_shared_reverse)


subsection \<open>The searches leave the translator alone\<close>

lemma backward_search_invariant:
  assumes run: "backward_search source sk fml st = Some st'"
    and init: "I st"
    and step: "\<And>s trav nxt. I s \<Longrightarrow> I (backward_edge source sk fml trav nxt s)"
    and pop: "\<And>s q. I s \<Longrightarrow> I (s\<lparr>queue := q\<rparr>)"
  shows "I st'"
proof -
  let ?P = "\<lambda>src k f s s'.
      (\<forall>s trav nxt. I s \<longrightarrow> I (backward_edge src k f trav nxt s)) \<longrightarrow> I s \<longrightarrow> I s'"
  have "?P source sk fml st st'"
  proof (rule backward_search.raw_induct[where P = ?P, OF _ run], intro impI)
    fix rec_call src k f s s'
    assume ih: "\<And>k f s b y. rec_call k f s b = Some y \<Longrightarrow> ?P k f s b y"
      and body: "(if fpq_empty (queue s) then Some s
          else let trav = fpq_top (queue s); st1 = s\<lparr>queue := fpq_pop (queue s)\<rparr>
               in rec_call src k f
                    (fold (backward_edge src k f trav) (follow_edges src (fst trav) False) st1))
          = Some s'"
      and step': "\<forall>s trav nxt. I s \<longrightarrow> I (backward_edge src k f trav nxt s)"
      and i: "I s"
    show "I s'"
    proof (cases "fpq_empty (queue s)")
      case True
      with body i show ?thesis by simp
    next
      case False
      let ?trav = "fpq_top (queue s)"
      let ?next = "fold (backward_edge src k f ?trav) (follow_edges src (fst ?trav) False)
                      (s\<lparr>queue := fpq_pop (queue s)\<rparr>)"
      from False body have r: "rec_call src k f ?next = Some s'"
        by (simp add: Let_def)
      have n: "I ?next"
      proof (rule fold_invariant)
        fix x t assume "I t"
        with step' show "I (backward_edge src k f ?trav x t)" by blast
      next
        from pop i show "I (s\<lparr>queue := fpq_pop (queue s)\<rparr>)" by blast
      qed
      from ih[OF r] step' n show ?thesis by (elim impE) assumption+
    qed
  qed
  moreover have "\<forall>s trav nxt. I s \<longrightarrow> I (backward_edge source sk fml trav nxt s)"
    using step by (intro allI impI)
  ultimately show ?thesis using init by (elim impE) assumption+
qed

lemma backward_edge_id_trans [simp]:
  "id_trans (backward_edge source sk fml trav nxt st) = id_trans st"
  by (simp add: backward_edge_def Let_def)

lemma backward_phase_id_trans:
  assumes "backward_phase source max_len itp dtc st = Some st'"
  shows "id_trans st' = id_trans st"
proof (cases "dtc \<and> (colocation_of (pos_1 st) (pos_2 st) itp = SeparateNodes
                      \<or> colocation_of (pos_1 st) (pos_2 st) itp = SharedNodeReachable)")
  case False
  with assms show ?thesis by (auto simp: backward_phase_def Let_def)
next
  case True
  with assms obtain sk fml st0 where
    run: "backward_search source sk fml st0 = Some st'"
    and st0: "id_trans st0 = id_trans st"
    by (auto simp: backward_phase_def Let_def split: if_splits)
  from run st0 show ?thesis
    by (rule backward_search_invariant [where I = "\<lambda>s. id_trans s = id_trans st"]) simp_all
qed


lemma trans_erase_nodes:
  assumes "trans_in_graph st"
  shows "trans_in_graph (erase_nodes ks st)"
  unfolding erase_nodes_def using assms
  by (rule fold_invariant [rotated]) (auto simp: trans_in_graph_def)

lemma trans_prune_strict_max_len:
  assumes "trans_in_graph st" and "prune_strict_max_len max_len st = Some st'"
  shows "trans_in_graph st'"
proof -
  from assms(2) obtain ks kn kl kr where
    "st' = erase_nodes ks (st\<lparr>graph := filter_edges kn kl kr (graph st)\<rparr>)"
    by (auto simp: prune_strict_max_len_def Let_def split: option.splits)
  moreover from assms(1) have "trans_in_graph (st\<lparr>graph := filter_edges kn kl kr (graph st)\<rparr>)"
    by (simp add: trans_in_graph_def)
  ultimately show ?thesis by (simp add: trans_erase_nodes)
qed

lemma trans_prune_only_paths:
  assumes "trans_in_graph st" and "prune_only_paths st = Some st'"
  shows "trans_in_graph st'"
proof -
  from assms(2) obtain ks kn kl kr where
    "st' = erase_nodes ks (st\<lparr>graph := filter_edges kn kl kr (graph st)\<rparr>)"
    by (auto simp: prune_only_paths_def Let_def split: option.splits)
  moreover from assms(1) have "trans_in_graph (st\<lparr>graph := filter_edges kn kl kr (graph st)\<rparr>)"
    by (simp add: trans_in_graph_def)
  ultimately show ?thesis by (simp add: trans_erase_nodes)
qed

lemma check_tips_invariant:
  assumes run: "check_tips protected ts = Some ts'"
    and init: "I ts"
    and pop: "\<And>s q. I s \<Longrightarrow> I (s\<lparr>to_check := q\<rparr>)"
    and rem: "\<And>s k sd. I s \<Longrightarrow> I (remove_tip k sd s)"
  shows "I ts'"
proof -
  let ?P = "\<lambda>(pr :: id_t list) s s'. I s \<longrightarrow> I s'"
  have "?P protected ts ts'"
  proof (rule check_tips.raw_induct[where P = ?P, OF _ run], intro impI)
    fix rec_call pr s s'
    assume ih: "\<And>pr s y. rec_call pr s = Some y \<Longrightarrow> ?P pr s y"
      and body: "(if to_check s = [] then Some s
          else let node_id = last (to_check s);
                   ts1 = s\<lparr>to_check := butlast (to_check s)\<rparr>
               in if node_id \<in> set pr \<or> \<not> um_count (tip_graph ts1) node_id
                  then rec_call pr ts1
                  else if left_degree ts1 node_id = 0
                  then rec_call pr (remove_tip node_id RightSide ts1)
                  else if right_degree ts1 node_id = 0
                  then rec_call pr (remove_tip node_id LeftSide ts1)
                  else rec_call pr ts1) = Some s'"
      and i: "I s"
    show "I s'"
    proof (cases "to_check s = []")
      case True
      with body i show ?thesis by simp
    next
      case False
      let ?ts1 = "s\<lparr>to_check := butlast (to_check s)\<rparr>"
      from pop i have i1: "I ?ts1" by blast
      from False body obtain nxt where r: "rec_call pr nxt = Some s'"
        and nxt: "nxt = ?ts1 \<or> (\<exists>k sd. nxt = remove_tip k sd ?ts1)"
        by (auto simp: Let_def split: if_splits)
      from nxt i1 rem have "I nxt" by blast
      with ih[OF r] show ?thesis by blast
    qed
  qed
  with init show ?thesis by blast
qed

lemma tip_edge_frame [simp]:
  "tip_graph (drop_left_tip_edge e ts) = tip_graph ts"
  "tip_id_trans (drop_left_tip_edge e ts) = tip_id_trans ts"
  "tip_graph (drop_right_tip_edge e ts) = tip_graph ts"
  "tip_id_trans (drop_right_tip_edge e ts) = tip_id_trans ts"
  by (simp_all add: drop_left_tip_edge_def drop_right_tip_edge_def Let_def)

lemma fold_tip_frame:
  assumes "\<And>e s. tip_graph (f e s) = tip_graph s \<and> tip_id_trans (f e s) = tip_id_trans s"
  shows "tip_graph (fold f es s) = tip_graph s \<and> tip_id_trans (fold f es s) = tip_id_trans s"
  by (induction es arbitrary: s) (simp_all add: assms)

lemma remove_tip_frame:
  "tip_graph (remove_tip k sd ts) = um_erase (tip_graph ts) k
   \<and> tip_id_trans (remove_tip k sd ts) = um_erase (tip_id_trans ts) k"
  by (cases sd) (simp_all add: remove_tip_def Let_def fold_tip_frame)

lemma trans_check_all_tips:
  assumes "check_all_tips protected ks ts = Some ts'"
    and "set (um_keys (tip_id_trans ts)) \<subseteq> set (um_keys (tip_graph ts))"
  shows "set (um_keys (tip_id_trans ts')) \<subseteq> set (um_keys (tip_graph ts'))"
  using assms
proof (induction ks arbitrary: ts)
  case Nil
  then show ?case by simp
next
  case (Cons k ks)
  from Cons.prems(1) obtain ts1 where
    r: "check_tips protected (ts\<lparr>to_check := k # to_check ts\<rparr>) = Some ts1"
    and rest: "check_all_tips protected ks ts1 = Some ts'"
    by (auto split: option.splits)
  have "set (um_keys (tip_id_trans ts1)) \<subseteq> set (um_keys (tip_graph ts1))"
    by (rule check_tips_invariant [OF r,
          where I = "\<lambda>s. set (um_keys (tip_id_trans s)) \<subseteq> set (um_keys (tip_graph s))"])
      (use Cons.prems(2) in \<open>auto simp: remove_tip_frame\<close>)
  with rest show ?case by (rule Cons.IH)
qed

lemma trans_prune_tips:
  assumes "trans_in_graph st" and "prune_tips st = Some st'"
  shows "trans_in_graph st'"
proof -
  from assms(2) obtain ts0 pr ks ts where
    run: "check_all_tips pr ks ts0 = Some ts"
    and ts0: "tip_graph ts0 = graph st" "tip_id_trans ts0 = id_trans st"
    and st': "st' = st\<lparr>graph := drop_dangling (tip_graph ts), id_trans := tip_id_trans ts\<rparr>"
    by (auto simp: prune_tips_def Let_def split: option.splits)
  from trans_check_all_tips [OF run] ts0 assms(1)
  have "set (um_keys (tip_id_trans ts)) \<subseteq> set (um_keys (tip_graph ts))"
    by (simp add: trans_in_graph_def)
  then show ?thesis
    unfolding st' by (simp add: trans_in_graph_def)
qed

lemma trans_prune:
  assumes "trans_in_graph st" and "prune max_len nat_flag op_flag sml st = Some st'"
  shows "trans_in_graph st'"
  using assms
  by (auto simp: prune_def split: if_splits
      elim: trans_prune_strict_max_len trans_prune_only_paths trans_prune_tips)


lemma keys_complete_id_trans:
  "set (um_keys (complete_id_trans g tr)) = set (um_keys tr) \<union> set (um_keys g)"
proof -
  have "\<And>tr. set (um_keys (fold (\<lambda>p m. if \<not> um_count m (fst p) then um_assign m (fst p) (fst p)
                                        else m) g tr))
             = set (um_keys tr) \<union> fst ` set g"
    by (induction g) (auto simp: um_count_keys)
  then show ?thesis by (simp add: complete_id_trans_def um_keys_def)
qed

lemma nodes_emit: "node g = [] \<Longrightarrow> fst ` set (node (emit gr g)) = set (um_keys gr)"
  by (simp add: emit_def um_keys_def image_image)

section \<open>Counting emitted edges\<close>

lemma mirror_side_inj [simp]: "mirror_side sd r = mirror_side sd r' \<longleftrightarrow> r = r'"
  by (cases sd) (auto simp: mirror_side_def)

lemma mirror_side_back [simp]: "mirror_side (mirror_side sd r) r' = sd \<longleftrightarrow> r' = r"
  by (cases sd) (auto simp: mirror_side_def)

lemma mirror_side_self [simp]: "mirror_side sd r = sd \<longleftrightarrow> r"
  by (cases sd) (auto simp: mirror_side_def)

lemma mirror_side_self' [simp]: "sd = mirror_side sd r \<longleftrightarrow> r"
  by (cases sd) (auto simp: mirror_side_def)

lemma entry_ends_eq_iff:
  "entry_ends k s e' = entry_ends a sd e \<longleftrightarrow>
     (k = a \<and> s = sd \<and> e' = e)
     \<or> (k = fst e \<and> s = mirror_side sd (snd e) \<and> e' = (a, snd e))"
  by (cases e; cases e') (auto simp: entry_ends_def doubleton_eq_iff)

lemma edge_ends_left [simp]:
  "edge_ends \<lparr>from_id = k, to_id = fst e, from_start = True, to_end = \<not> snd e\<rparr>
     = entry_ends k LeftSide e"
  by (auto simp: edge_ends_def entry_ends_def mirror_side_def)

lemma edge_ends_right [simp]:
  "edge_ends \<lparr>from_id = k, to_id = fst e, from_start = False, to_end = snd e\<rparr>
     = entry_ends k RightSide e"
  by (auto simp: edge_ends_def entry_ends_def mirror_side_def)

lemma emitted_from_node:
  "length (filter (\<lambda>x. edge_ends x = P) (emit_edges (k, n)))
     = length (filter (\<lambda>e. emit_rule k LeftSide e \<and> entry_ends k LeftSide e = P) (edges_left n))
     + length (filter (\<lambda>e. emit_rule k RightSide e \<and> entry_ends k RightSide e = P) (edges_right n))"
  by (simp add: emit_edges_def filter_map o_def emit_rule_def conj_commute)


lemma g_at_member:
  assumes "distinct (um_keys g)" and "p \<in> set g"
  shows "g_at g (fst p) = snd p"
proof -
  from assms have "map_of g (fst p) = Some (snd p)"
    by (cases p) (simp add: um_keys_def)
  then show ?thesis by (simp add: g_at_def)
qed

lemma g_at_absent: "k \<notin> set (um_keys g) \<Longrightarrow> g_at g k = new_LocalNode []"
  by (simp add: g_at_def um_keys_def map_of_eq_None_iff[THEN iffD2])

lemma contribution_absent: "k \<notin> set (um_keys g) \<Longrightarrow> contribution g P k = 0"
  by (simp add: contribution_def g_at_absent emit_edges_def new_LocalNode_def)

lemma emitted_count_sum:
  assumes "distinct (um_keys g)"
  shows "emitted_count (emit g empty_Graph) P = sum_list (map (contribution g P) (um_keys g))"
proof -
  have "\<And>p. p \<in> set g \<Longrightarrow>
          length (filter (\<lambda>x. edge_ends x = P) (emit_edges p)) = contribution g P (fst p)"
    using g_at_member [OF assms] by (simp add: contribution_def)
  then have "map (\<lambda>p. length (filter (\<lambda>x. edge_ends x = P) (emit_edges p))) g
             = map (\<lambda>p. contribution g P (fst p)) g"
    by simp
  then have "sum_list (map (\<lambda>p. length (filter (\<lambda>x. edge_ends x = P) (emit_edges p))) g)
             = sum_list (map (\<lambda>p. contribution g P (fst p)) g)"
    by (rule arg_cong)
  then show ?thesis
    by (simp add: emitted_count_def emit_def empty_Graph_def filter_concat length_concat
        o_def um_keys_def)
qed

lemma sum_list_two_keys:
  assumes "distinct ks" and "\<And>k. k \<noteq> a \<Longrightarrow> k \<noteq> b \<Longrightarrow> f k = (0::nat)"
    and "\<And>k. k \<notin> set ks \<Longrightarrow> f k = 0"
  shows "sum_list (map f ks) = f a + (if b = a then 0 else f b)"
proof -
  have "sum_list (map f ks) = sum f (set ks)"
    using assms(1) by (simp add: sum_list_distinct_conv_sum_set)
  also have "\<dots> = sum f (set ks \<union> {a, b})"
    by (rule sum.mono_neutral_left) (auto simp: assms(3))
  also have "\<dots> = sum f {a, b}"
    by (rule sum.mono_neutral_right) (auto simp: assms(2))
  also have "\<dots> = f a + (if b = a then 0 else f b)"
    by auto
  finally show ?thesis .
qed

lemma count_filter_eq: "length (filter (\<lambda>x. c \<and> x = y) xs) = (if c then count_list xs y else 0)"
  by (induction xs) auto

lemma contribution_sides:
  "contribution g P k
     = length (filter (\<lambda>e. emit_rule k LeftSide e \<and> entry_ends k LeftSide e = P)
                 (edges_on LeftSide (g_at g k)))
     + length (filter (\<lambda>e. emit_rule k RightSide e \<and> entry_ends k RightSide e = P)
                 (edges_on RightSide (g_at g k)))"
  by (simp add: contribution_def emitted_from_node)

lemma count_self_side:
  "length (filter (\<lambda>e'. emit_rule a s e' \<and> entry_ends a s e' = entry_ends a sd e)
             (edges_on s (g_at g a)))
   = (if s = sd \<and> emit_rule a sd e then entry_count g a sd e else 0)
     + (if a = fst e \<and> \<not> snd e \<and> s = mirror_side sd (snd e) \<and> emit_rule a s (a, snd e)
        then entry_count g a s (a, snd e) else 0)"
proof (cases "s = sd")
  case True
  have "(\<lambda>e'. emit_rule a s e' \<and> entry_ends a s e' = entry_ends a sd e)
        = (\<lambda>e'. emit_rule a sd e \<and> e' = e)"
    using True by (cases e) (auto simp: entry_ends_eq_iff fun_eq_iff)
  with True show ?thesis
    by (auto simp: count_filter_eq entry_count_def)
next
  case False
  let ?c = "a = fst e \<and> \<not> snd e \<and> s = mirror_side sd (snd e) \<and> emit_rule a s (a, snd e)"
  have "(\<lambda>e'. emit_rule a s e' \<and> entry_ends a s e' = entry_ends a sd e)
        = (\<lambda>e'. ?c \<and> e' = (a, snd e))"
    using False by (cases e) (auto simp: entry_ends_eq_iff fun_eq_iff)
  then have "length (filter (\<lambda>e'. emit_rule a s e' \<and> entry_ends a s e' = entry_ends a sd e)
                       (edges_on s (g_at g a)))
             = (if ?c then entry_count g a s (a, snd e) else 0)"
    by (simp only: count_filter_eq entry_count_def)
  with False show ?thesis by simp
qed

lemma count_other_side:
  assumes "b \<noteq> a" and "b = fst e"
  shows "length (filter (\<lambda>e'. emit_rule b s e' \<and> entry_ends b s e' = entry_ends a sd e)
             (edges_on s (g_at g b)))
   = (if s = mirror_side sd (snd e) \<and> emit_rule b s (a, snd e)
      then entry_count g b s (a, snd e) else 0)"
proof -
  let ?c = "s = mirror_side sd (snd e) \<and> emit_rule b s (a, snd e)"
  have "(\<lambda>e'. emit_rule b s e' \<and> entry_ends b s e' = entry_ends a sd e)
        = (\<lambda>e'. ?c \<and> e' = (a, snd e))"
    using assms by (cases e) (auto simp: entry_ends_eq_iff fun_eq_iff)
  then show ?thesis
    by (simp only: count_filter_eq entry_count_def)
qed

lemma count_stranger:
  assumes "k \<noteq> a" and "k \<noteq> fst e"
  shows "length (filter (\<lambda>e'. emit_rule k s e' \<and> entry_ends k s e' = entry_ends a sd e)
             (edges_on s (g_at g k))) = 0"
  using assms by (simp add: entry_ends_eq_iff)


lemma contribution_stranger:
  assumes "k \<noteq> a" and "k \<noteq> fst e"
  shows "contribution g (entry_ends a sd e) k = 0"
  by (simp only: contribution_sides count_stranger [OF assms])

lemma contribution_self:
  "contribution g (entry_ends a sd e) a
     = (if emit_rule a sd e then entry_count g a sd e else 0)
       + (if a = fst e \<and> \<not> snd e \<and> emit_rule a (opposite sd) (a, False)
          then entry_count g a (opposite sd) (a, False) else 0)"
proof (cases sd)
  case LeftSide
  show ?thesis
    unfolding LeftSide contribution_sides count_self_side
    by (auto simp: mirror_side_def)
next
  case RightSide
  show ?thesis
    unfolding RightSide contribution_sides count_self_side
    by (auto simp: mirror_side_def)
qed

lemma contribution_other:
  assumes "fst e \<noteq> a"
  shows "contribution g (entry_ends a sd e) (fst e)
     = (if emit_rule (fst e) (mirror_side sd (snd e)) (a, snd e)
        then entry_count g (fst e) (mirror_side sd (snd e)) (a, snd e) else 0)"
  unfolding contribution_sides count_other_side [OF assms refl]
  by (cases "mirror_side sd (snd e)") auto

lemma emit_rule_cases:
  "emit_rule k LeftSide e \<longleftrightarrow> fst e > k \<or> (fst e = k \<and> snd e)"
  "emit_rule k RightSide e \<longleftrightarrow> fst e \<ge> k"
  by (simp_all add: emit_rule_def)

lemma emit_rule_up: "k < fst e \<Longrightarrow> emit_rule k s e"
  by (cases s) (simp_all add: emit_rule_def)

lemma emit_rule_down: "fst e < k \<Longrightarrow> \<not> emit_rule k s e"
  by (cases s) (simp_all add: emit_rule_def)

lemma emitted_count_of_entry:
  assumes keys: "distinct (um_keys g)"
    and inv: "edge_mirror_invariant g"
    and a: "a \<in> set (um_keys g)"
    and e: "e \<in> set (edges_on sd (g_at g a))"
  shows "emitted_count (emit g empty_Graph) (entry_ends a sd e) = entry_count g a sd e"
proof -
  let ?P = "entry_ends a sd e"
  let ?b = "fst e"
  let ?m = "mirror_side sd (snd e)"
  from inv a e have mir: "mirrored g a sd e"
    by (cases sd) (auto simp: edge_mirror_invariant_def)
  have total: "emitted_count (emit g empty_Graph) ?P
               = contribution g ?P a + (if ?b = a then 0 else contribution g ?P ?b)"
    unfolding emitted_count_sum [OF keys]
    by (rule sum_list_two_keys [OF keys]) (simp_all add: contribution_stranger contribution_absent)
  show ?thesis
  proof (cases "?b = a")
    case same: True
    then have e_eq: "e = (a, snd e)" by (cases e) simp
    show ?thesis
    proof (cases "snd e")
      case True
      with same have "emit_rule a sd e" by (cases sd) (simp_all add: emit_rule_def)
      with same True total show ?thesis by (simp add: contribution_self)
    next
      case False
      with same mir have bal: "entry_count g a sd e = entry_count g a (opposite sd) (a, False)"
        by (simp add: mirrored_def mirror_side_def)
      from same False e_eq have e_is: "e = (a, False)" by simp
      show ?thesis
      proof (cases sd)
        case LeftSide
        with same False total bal e_is show ?thesis
          by (simp add: contribution_self emit_rule_def)
      next
        case RightSide
        with same False total bal e_is show ?thesis
          by (simp add: contribution_self emit_rule_def)
      qed
    qed
  next
    case other: False
    with mir have bal: "entry_count g a sd e = entry_count g ?b ?m (a, snd e)"
      by (simp add: mirrored_def)
    show ?thesis
    proof (cases "a < ?b")
      case True
      then have "emit_rule a sd e" "\<not> emit_rule ?b ?m (a, snd e)"
        by (simp_all add: emit_rule_up emit_rule_down)
      with other total show ?thesis
        by (simp add: contribution_self contribution_other)
    next
      case False
      with other have "?b < a" by simp
      then have "\<not> emit_rule a sd e" "emit_rule ?b ?m (a, snd e)"
        by (simp_all add: emit_rule_up emit_rule_down)
      with other total bal show ?thesis
        by (simp add: contribution_self contribution_other)
    qed
  qed
qed

section \<open>Substring calls stay in range\<close>

subsection \<open>Sequences stored in the node map\<close>

lemma g_at_um_assign [simp]: "g_at (um_assign g k v) k' = (if k' = k then v else g_at g k')"
proof -
  have "map_of (um_assign g k v) k' = (if k' = k then Some v else map_of g k')"
    by (induction g) auto
  then show ?thesis by (simp add: g_at_def)
qed

lemma g_at_g_modify [simp]:
  "g_at (g_modify g k f) k' = (if k' = k then f (g_at g k) else g_at g k')"
  by (simp add: g_modify_def)

lemma sequence_set_edges_on [simp]: "sequence (set_edges_on sd es n) = sequence n"
  by (cases sd) simp_all

lemma sequence_push_edge [simp]: "sequence (push_edge sd e n) = sequence n"
  by (simp add: push_edge_def)

lemma node_sequence_um_assign [simp]:
  "node_sequence (um_assign g k v) = (node_sequence g)(k := sequence v)"
  by (simp add: node_sequence_def fun_eq_iff)

lemma node_sequence_edges_only:
  assumes "\<And>n. sequence (f n) = sequence n"
  shows "node_sequence (g_modify g k f) = node_sequence g"
  using assms by (simp add: node_sequence_def fun_eq_iff)

lemma node_sequence_touch [simp]: "node_sequence (g_modify g k (\<lambda>n. n)) = node_sequence g"
  by (rule node_sequence_edges_only) simp

lemma node_sequence_emplace_back [simp]:
  "node_sequence (emplace_back g k sd e) = node_sequence g"
  unfolding emplace_back_def by (rule node_sequence_edges_only) simp

lemma node_sequence_set_edge_first [simp]:
  "node_sequence (set_edge_first g k sd i n) = node_sequence g"
  unfolding set_edge_first_def by (rule node_sequence_edges_only) simp

lemma node_sequence_clear_edges [simp]: "node_sequence (clear_edges g k sd) = node_sequence g"
  unfolding clear_edges_def by (rule node_sequence_edges_only) simp

lemma node_sequence_move_edges [simp]:
  "node_sequence (move_edges g a sa b sb) = node_sequence g"
  by (simp add: move_edges_def Let_def node_sequence_edges_only)

lemma node_sequence_set_node_sequence [simp]:
  "node_sequence (set_node_sequence g k s) = (node_sequence g)(k := s)"
  by (simp add: set_node_sequence_def node_sequence_def set_sequence_def fun_eq_iff)



subsection \<open>Loop bodies keep the sequences\<close>

lemma node_sequence_dup_sep_right [simp]:
  "node_sequence (fst (dup_sep_right p nid i gb)) = node_sequence (fst gb)"
  by (simp add: dup_sep_right_def Let_def)

lemma node_sequence_fold_dup_sep_right [simp]:
  "node_sequence (fst (fold (dup_sep_right p nid) is gb)) = node_sequence (fst gb)"
  by (rule fold_invariant [where I = "\<lambda>x. node_sequence (fst x) = node_sequence (fst gb)"])
    simp_all

lemma node_sequence_dup_cycle_righthand [simp]:
  "node_sequence (fst (dup_cycle_righthand rev1 rid lid cid i gb)) = node_sequence (fst gb)"
  by (simp add: dup_cycle_righthand_def Let_def)

lemma node_sequence_fold_dup_cycle_righthand [simp]:
  "node_sequence (fst (fold (dup_cycle_righthand rev1 rid lid cid) is gb)) = node_sequence (fst gb)"
  by (rule fold_invariant [where I = "\<lambda>x. node_sequence (fst x) = node_sequence (fst gb)"])
    simp_all

lemma node_sequence_dup_unreach_out [simp]:
  "node_sequence (fst (dup_unreach_out p1 rev1 cid i gb)) = node_sequence (fst gb)"
  by (simp add: dup_unreach_out_def Let_def)

lemma node_sequence_fold_dup_unreach_out [simp]:
  "node_sequence (fst (fold (dup_unreach_out p1 rev1 cid) is gb)) = node_sequence (fst gb)"
  by (rule fold_invariant [where I = "\<lambda>x. node_sequence (fst x) = node_sequence (fst gb)"])
    simp_all

lemma node_sequence_dup_reverse_out [simp]:
  "node_sequence (fst (dup_reverse_out p1 rev1 cid i gb)) = node_sequence (fst gb)"
  by (simp add: dup_reverse_out_def Let_def)

lemma node_sequence_fold_dup_reverse_out [simp]:
  "node_sequence (fst (fold (dup_reverse_out p1 rev1 cid) is gb)) = node_sequence (fst gb)"
  by (rule fold_invariant [where I = "\<lambda>x. node_sequence (fst x) = node_sequence (fst gb)"])
    simp_all

lemma node_sequence_dup_sep_1_left [simp]:
  "node_sequence (dup_sep_1_left p1 nid i g) = node_sequence g"
  by (simp add: dup_sep_1_left_def Let_def split: option.splits)

lemma node_sequence_fold_dup_sep_1_left [simp]:
  "node_sequence (fold (dup_sep_1_left p1 nid) is g) = node_sequence g"
  by (rule fold_invariant [where I = "\<lambda>x. node_sequence x = node_sequence g"]) simp_all

lemma node_sequence_dup_sep_2_left [simp]:
  "node_sequence (dup_sep_2_left p1 p2 nid i g) = node_sequence g"
  by (simp add: dup_sep_2_left_def Let_def split: option.splits)

lemma node_sequence_fold_dup_sep_2_left [simp]:
  "node_sequence (fold (dup_sep_2_left p1 p2 nid) is g) = node_sequence g"
  by (rule fold_invariant [where I = "\<lambda>x. node_sequence x = node_sequence g"]) simp_all

lemma node_sequence_dup_cycle_lefthand [simp]:
  "node_sequence (dup_cycle_lefthand rev1 rid lid cid i g) = node_sequence g"
  by (simp add: dup_cycle_lefthand_def Let_def split: option.splits)

lemma node_sequence_fold_dup_cycle_lefthand [simp]:
  "node_sequence (fold (dup_cycle_lefthand rev1 rid lid cid) is g) = node_sequence g"
  by (rule fold_invariant [where I = "\<lambda>x. node_sequence x = node_sequence g"]) simp_all

lemma node_sequence_dup_unreach_in [simp]:
  "node_sequence (dup_unreach_in p1 rev1 cid i g) = node_sequence g"
  by (simp add: dup_unreach_in_def Let_def split: option.splits)

lemma node_sequence_fold_dup_unreach_in [simp]:
  "node_sequence (fold (dup_unreach_in p1 rev1 cid) is g) = node_sequence g"
  by (rule fold_invariant [where I = "\<lambda>x. node_sequence x = node_sequence g"]) simp_all

lemma node_sequence_dup_reverse_in [simp]:
  "node_sequence (dup_reverse_in p1 rev1 cid i g) = node_sequence g"
  by (simp add: dup_reverse_in_def Let_def split: option.splits)

lemma node_sequence_fold_dup_reverse_in [simp]:
  "node_sequence (fold (dup_reverse_in p1 rev1 cid) is g) = node_sequence g"
  by (rule fold_invariant [where I = "\<lambda>x. node_sequence x = node_sequence g"]) simp_all

lemma node_sequence_relabel_split [simp]:
  "node_sequence (relabel_split p1 nid i g) = node_sequence g"
  by (simp add: relabel_split_def Let_def split: option.splits)

lemma node_sequence_fold_relabel_split [simp]:
  "node_sequence (fold (relabel_split p1 nid) is g) = node_sequence g"
  by (rule fold_invariant [where I = "\<lambda>x. node_sequence x = node_sequence g"]) simp_all

lemma node_sequence_sink_edges [simp]:
  "node_sequence (sink_edges p1 rev1 nid i g) = node_sequence g"
  by (simp add: sink_edges_def Let_def split: option.splits)

lemma node_sequence_fold_sink_edges [simp]:
  "node_sequence (fold (sink_edges p1 rev1 nid) is g) = node_sequence g"
  by (rule fold_invariant [where I = "\<lambda>x. node_sequence x = node_sequence g"]) simp_all











subsection \<open>No substring call is out of range\<close>







subsection \<open>The searches keep the nodes of the two positions\<close>

lemma kept_queue [simp]: "kept k x a b (s\<lparr>queue := q\<rparr>) = kept k x a b s"
  by (simp add: kept_def)

lemma kept_found_target [simp]: "kept k x a b (s\<lparr>found_target := q\<rparr>) = kept k x a b s"
  by (simp add: kept_def)












subsection \<open>Step 4 stays in range\<close>







lemma sequence_new_LocalNode [simp]: "sequence (new_LocalNode s) = s"
  by (simp add: new_LocalNode_def)







subsection \<open>Step 3 stays in range and keeps the two nodes\<close>











section \<open>Both positions on one node, the second not ahead of the first\<close>










section \<open>Concrete runs\<close>

lemma chain_run:
  "extract_connecting_graph chain_graph empty_Graph 20 (1, False, 1) (3, False, 2)
      False False False False False
   = Some (Inr ([(1, 1), (3, 3), (2, 2)],
        \<lparr>node = [(1, ''GT''), (3, ''TT''), (2, ''GGGG'')],
         edge = [\<lparr>from_id = 1, to_id = 2, from_start = False, to_end = False\<rparr>,
                 \<lparr>from_id = 2, to_id = 3, from_start = False, to_end = False\<rparr>]\<rparr>))"
  by code_simp

lemma loop_tips_run:
  "extract_connecting_graph loop_graph empty_Graph 20 (1, False, 0) (2, False, 1)
      False True True False False
   = Some (Inr ([(1, 1), (2, 2)],
        \<lparr>node = [(1, ''C''), (2, ''G'')],
         edge = [\<lparr>from_id = 1, to_id = 2, from_start = False, to_end = False\<rparr>]\<rparr>))"
  by code_simp


section \<open>Properties\<close>

text \<open>
  C6. For every sequence, every offset within it and both values of
  \<open>include_terminal_positions\<close> (written \<open>T\<close>, counted as 0 or 1), the trimming helpers
  return without error: right of the offset on the forward strand the substring that starts
  at index \<open>offset + 1 - T\<close> and has length \<open>size - offset - 1 + T\<close>; right of the offset on
  the reverse strand the prefix of that length; left of the offset on the forward strand
  the prefix of length \<open>offset + T\<close>; left of the offset on the reverse strand the suffix of
  length \<open>offset + T\<close>.
\<close>

theorem trimmed_seq_spec:
  assumes "0 \<le> off" and "off < int (length seq)"
  shows "trimmed_seq_right T seq off False
           = Inr (take (nat (int (length seq) - off - 1 + of_bool T))
                       (drop (nat (off + 1 - of_bool T)) seq))
       \<and> int (length (take (nat (int (length seq) - off - 1 + of_bool T))
                            (drop (nat (off + 1 - of_bool T)) seq)))
           = int (length seq) - off - 1 + of_bool T
       \<and> trimmed_seq_right T seq off True
           = Inr (take (nat (int (length seq) - off - 1 + of_bool T)) seq)
       \<and> int (length (take (nat (int (length seq) - off - 1 + of_bool T)) seq))
           = int (length seq) - off - 1 + of_bool T
       \<and> trimmed_seq_left T seq off False = Inr (take (nat (off + of_bool T)) seq)
       \<and> int (length (take (nat (off + of_bool T)) seq)) = off + of_bool T
       \<and> trimmed_seq_left T seq off True
           = Inr (drop (length seq - nat (off + of_bool T)) seq)
       \<and> int (length (drop (length seq - nat (off + of_bool T)) seq)) = off + of_bool T"
proof -
  obtain k where k: "off = int k" "k < length seq"
    using assms by (metis nat_less_iff zero_le_imp_eq_int less_eq_nat.simps(1) nat_int)
  show ?thesis
  proof (cases T)
    case True
    with k show ?thesis
      by (auto simp: trimmed_seq_right_def trimmed_seq_left_def substr_def min_def
          nat_diff_distrib nat_add_distrib)
  next
    case False
    with k show ?thesis
      by (auto simp: trimmed_seq_right_def trimmed_seq_left_def substr_def min_def
          nat_diff_distrib nat_add_distrib)
  qed
qed

theorem trimmed_seq_spec_witness:
  "(0::int) \<le> 1 \<and> (1::int) < int (length ''ACGT'')
   \<and> trimmed_seq_right False ''ACGT'' 1 False = Inr ''GT''
   \<and> trimmed_seq_right False ''ACGT'' 1 True = Inr ''AC''
   \<and> trimmed_seq_left False ''ACGT'' 1 False = Inr ''A''
   \<and> trimmed_seq_left False ''ACGT'' 1 True = Inr ''T''
   \<and> trimmed_seq_right True ''ACGT'' 1 False = Inr ''CGT''
   \<and> trimmed_seq_right True ''ACGT'' 1 True = Inr ''ACG''
   \<and> trimmed_seq_left True ''ACGT'' 1 False = Inr ''AC''
   \<and> trimmed_seq_left True ''ACGT'' 1 True = Inr ''GT''"
  using trimmed_seq_spec [of 1 "''ACGT''" False] trimmed_seq_spec [of 1 "''ACGT''" True]
  by simp

text \<open>
  C8. Called with an output graph that already holds a node or an edge, the procedure
  stops at once with the fatal error (the message on standard error followed by
  \<open>exit(1)\<close>), whatever the other arguments are; no extraction takes place.
\<close>

theorem nonempty_output_aborts:
  assumes "node g \<noteq> [] \<or> edge g \<noteq> []"
  shows "extract_connecting_graph source g max_len p1 p2 include_terminal_positions
           detect_terminal_cycles no_additional_tips only_paths strict_max_len
         = Some (Inl NonEmptyGraph)"
  using assms by (simp add: extract_connecting_graph_def)

theorem nonempty_output_aborts_witness:
  "extract_connecting_graph chain_graph \<lparr>node = [(7, ''A'')], edge = []\<rparr> 20
     (1, False, 1) (3, False, 2) False False False False False = Some (Inl NonEmptyGraph)"
proof -
  have h: "node \<lparr>node = [(7, ''A'')], edge = []\<rparr> \<noteq> [] \<or> edge \<lparr>node = [(7, ''A'')], edge = []\<rparr> \<noteq> []"
    by simp
  from nonempty_output_aborts [OF h] show ?thesis .
qed

text \<open>
  C3. Whenever the forward search ends without having found the target, the procedure
  returns normally with an empty id translator and the (empty) output graph untouched.
\<close>

theorem no_path_returns_empty:
  assumes "found_target_after_forward source max_len p1 p2 include_terminal_positions
             detect_terminal_cycles = Some False"
  shows "extract_connecting_graph source empty_Graph max_len p1 p2 include_terminal_positions
           detect_terminal_cycles no_additional_tips only_paths strict_max_len
         = Some (Inr ([], empty_Graph))"
proof -
  from assms obtain st where
    run: "forward_phase source max_len include_terminal_positions detect_terminal_cycles
            (init_state source p1 p2) = Some st"
    and nf: "\<not> found_target st"
    by (auto simp: found_target_after_forward_def)
  from forward_phase_id_trans [OF run] have "id_trans st = []"
    by (simp add: init_state_def Let_def)
  with run nf show ?thesis
    by (simp add: extract_connecting_graph_def empty_Graph_def)
qed

theorem no_path_returns_empty_witness:
  "found_target_after_forward chain_graph 3 (1, False, 1) (3, False, 2) False False = Some False
   \<and> extract_connecting_graph chain_graph empty_Graph 3 (1, False, 1) (3, False, 2)
        False False False False False = Some (Inr ([], empty_Graph))"
proof -
  have h: "found_target_after_forward chain_graph 3 (1, False, 1) (3, False, 2) False False
             = Some False"
    by code_simp
  from no_path_returns_empty [OF h] h show ?thesis by blast
qed

text \<open>
  C5. On the linear chain 1 (ACGT), 2 (GGGG), 3 (TTTT) with \<open>pos_1 = (1, forward, 1)\<close>,
  \<open>pos_2 = (3, forward, 2)\<close>, \<open>max_len = 20\<close> and every flag false, the procedure returns
  three nodes with the sequences GT, GGGG and TT, two edges (1 to 2 and 2 to 3, both from
  a right side to a left side), and a translator that maps each of the three ids to itself.
\<close>

theorem chain_extraction:
  "extract_connecting_graph chain_graph empty_Graph 20 (1, False, 1) (3, False, 2)
      False False False False False
   = Some (Inr ([(1, 1), (3, 3), (2, 2)],
        \<lparr>node = [(1, ''GT''), (3, ''TT''), (2, ''GGGG'')],
         edge = [\<lparr>from_id = 1, to_id = 2, from_start = False, to_end = False\<rparr>,
                 \<lparr>from_id = 2, to_id = 3, from_start = False, to_end = False\<rparr>]\<rparr>))"
  by (rule chain_run)

theorem chain_extraction_witness:
  "\<exists>tr g. extract_connecting_graph chain_graph empty_Graph 20 (1, False, 1) (3, False, 2)
              False False False False False = Some (Inr (tr, g))
     \<and> length (node g) = 3
     \<and> set (node g) = {(1, ''GT''), (2, ''GGGG''), (3, ''TT'')}
     \<and> length (edge g) = 2
     \<and> set (um_keys tr) = {1, 2, 3}
     \<and> map_of tr 1 = Some 1 \<and> map_of tr 2 = Some 2 \<and> map_of tr 3 = Some 3"
  using chain_extraction by (auto simp: um_keys_def)

text \<open>
  C1 (the code departs from the claim). On the spur graph with \<open>pos_1 = (1, forward, 0)\<close>,
  \<open>pos_2 = (2, forward, 1)\<close>, \<open>max_len = 10\<close> and \<open>detect_terminal_cycles\<close> set, the
  backward budget is 2 and the distance from \<open>pos_2\<close> through node 3 is 5; the backward
  search enqueues the reverse traversal of node 3 all the same, and then that of node 4,
  which so enters the node map.
\<close>

theorem backward_search_beyond_budget:
  "10 - first_traversal_length spur_graph (1, False, 0) = 2
   \<and> offset (2, False, 1) + int (length (get_sequence spur_graph (3, False))) = 5
   \<and> map_option (\<lambda>st. (fpq_queued (queue st), um_keys (graph st)))
        (state_after_searches spur_graph 10 (1, False, 0) (2, False, 1) False True)
      = Some ([(2, True), (3, True), (4, True)], [1, 2, 3, 4])"
  by code_simp

text \<open>
  C2 (the code departs from the claim). On the loop graph with \<open>pos_1 = (1, forward, 0)\<close>,
  \<open>pos_2 = (2, forward, 1)\<close>, \<open>max_len = 20\<close> and \<open>detect_terminal_cycles\<close> set, the
  invariant holds after the two searches and is broken by the duplication of node 2: the
  left list of node 2 points to the copy 4 with a reversing entry, and the left list of
  the copy holds \<open>(1, reversing)\<close> where the mirror \<open>(2, reversing)\<close> belongs.
\<close>

theorem duplication_breaks_edge_mirror:
  "map_option (\<lambda>st. edge_mirror_invariant (graph st))
     (state_after_searches loop_graph 20 (1, False, 0) (2, False, 1) False True) = Some True
   \<and> map_after_duplication loop_graph 20 (1, False, 0) (2, False, 1) False True
      = Some [(1, \<lparr>sequence = ''AC'', edges_left = [],
                    edges_right = [(2, False), (4, False)]\<rparr>),
              (2, \<lparr>sequence = ''GT'', edges_left = [(1, False), (4, True)],
                    edges_right = [(3, False)]\<rparr>),
              (3, \<lparr>sequence = ''TT'', edges_left = [(2, False), (4, False)],
                    edges_right = []\<rparr>),
              (4, \<lparr>sequence = ''GT'', edges_left = [(1, False), (1, True), (4, True)],
                    edges_right = [(3, False)]\<rparr>)]
   \<and> map_option edge_mirror_invariant
        (map_after_duplication loop_graph 20 (1, False, 0) (2, False, 1) False True)
      = Some False"
  by code_simp

theorem duplication_breaks_edge_mirror_witness:
  "\<exists>g. map_after_duplication loop_graph 20 (1, False, 0) (2, False, 1) False True = Some g
     \<and> (4, True) \<in> set (edges_left (g_at g 2)) \<and> (2, True) \<notin> set (edges_left (g_at g 4))
     \<and> (1, True) \<in> set (edges_left (g_at g 4)) \<and> (4, True) \<notin> set (edges_left (g_at g 1))"
  using duplication_breaks_edge_mirror by (simp add: g_at_def)

text \<open>
  C9. Whenever the procedure returns a translator and an output graph, the ids the
  translator has an entry for are exactly the ids of the nodes in the output graph.
\<close>

theorem translator_keys_are_emitted_ids:
  assumes "extract_connecting_graph source g max_len p1 p2 itp dtc nat_flag op_flag sml
             = Some (Inr (tr, out))"
  shows "set (um_keys tr) = fst ` set (node out)"
proof -
  from assms have empty: "node g = []" "edge g = []"
    by (auto simp: extract_connecting_graph_def split: if_splits)
  from assms empty obtain st1 where
    f: "forward_phase source max_len itp dtc (init_state source p1 p2) = Some st1"
    by (auto simp: extract_connecting_graph_def Let_def split: option.splits)
  from forward_phase_id_trans [OF f] have t1: "id_trans st1 = []"
    by (simp add: init_state_def Let_def)
  show ?thesis
  proof (cases "found_target st1")
    case False
    with assms empty f t1 show ?thesis
      by (auto simp: extract_connecting_graph_def Let_def um_keys_def)
  next
    case True
    with assms empty f obtain st2 st4 st5 where
      b: "backward_phase source max_len itp dtc st1 = Some st2"
      and dc: "bind_err (duplicate_nodes itp dtc (colocation_of p1 p2 itp)
                 (st2\<lparr>next_id := max_id st2 + 1\<rparr>))
               (cut_nodes itp (colocation_of p1 p2 itp)) = Inr st4"
      and pr: "prune max_len nat_flag op_flag sml st4 = Some st5"
      and res: "tr = complete_id_trans (graph st5) (id_trans st5)" "out = emit (graph st5) g"
      by (auto simp: extract_connecting_graph_def Let_def split: option.splits sum.splits)
    from backward_phase_id_trans [OF b] t1 have "trans_in_graph (st2\<lparr>next_id := max_id st2 + 1\<rparr>)"
      by (simp add: trans_in_graph_def um_keys_def)
    moreover from dc obtain st3 where
      d: "duplicate_nodes itp dtc (colocation_of p1 p2 itp) (st2\<lparr>next_id := max_id st2 + 1\<rparr>)
            = Inr st3"
      and c: "cut_nodes itp (colocation_of p1 p2 itp) st3 = Inr st4"
      by (auto simp: bind_err_Inr)
    ultimately have "trans_in_graph st4"
      by (blast intro: trans_duplicate_nodes trans_cut_nodes)
    with pr have "trans_in_graph st5" by (blast intro: trans_prune)
    with res empty show ?thesis
      by (auto simp: keys_complete_id_trans nodes_emit trans_in_graph_def)
  qed
qed

theorem translator_keys_are_emitted_ids_witness:
  "\<exists>tr out. extract_connecting_graph loop_graph empty_Graph 20 (1, False, 0) (2, False, 1)
                 False True True False False = Some (Inr (tr, out))
     \<and> set (um_keys tr) = {1, 2} \<and> fst ` set (node out) = {1, 2}"
  using translator_keys_are_emitted_ids [OF loop_tips_run] loop_tips_run
  by (auto simp: um_keys_def)

text \<open>
  C7. Let the node map have distinct keys and satisfy the edge-mirror invariant. Then for
  every entry of a side list of a node of the map, the output holds as many edges between
  the two ends the entry joins as the entry occurs in its list: once for an entry that
  occurs once, whether the entry is the one the rule emits or the mirror of it, and whether
  the edge joins two nodes, is a reversing self loop or is a non-reversing self loop. The
  edges emitted for a node are those of its left list whose neighbour id is greater, or
  equal with the reversing flag set, and those of its right list whose neighbour id is
  greater or equal.
\<close>

theorem emission_emits_each_edge_once:
  assumes "distinct (um_keys g)" and "edge_mirror_invariant g"
    and "a \<in> set (um_keys g)" and "e \<in> set (edges_on sd (g_at g a))"
  shows "emitted_count (emit g empty_Graph) (entry_ends a sd e) = entry_count g a sd e
       \<and> edge (emit g empty_Graph)
           = concat (map (\<lambda>p.
               map (\<lambda>e. \<lparr>from_id = fst p, to_id = fst e, from_start = True, to_end = \<not> snd e\<rparr>)
                   (filter (emit_rule (fst p) LeftSide) (edges_left (snd p)))
               @ map (\<lambda>e. \<lparr>from_id = fst p, to_id = fst e, from_start = False, to_end = snd e\<rparr>)
                     (filter (emit_rule (fst p) RightSide) (edges_right (snd p)))) g)"
proof
  from assms show "emitted_count (emit g empty_Graph) (entry_ends a sd e) = entry_count g a sd e"
    by (rule emitted_count_of_entry)
next
  have "emit_edges = (\<lambda>p.
               map (\<lambda>e. \<lparr>from_id = fst p, to_id = fst e, from_start = True, to_end = \<not> snd e\<rparr>)
                   (filter (emit_rule (fst p) LeftSide) (edges_left (snd p)))
               @ map (\<lambda>e. \<lparr>from_id = fst p, to_id = fst e, from_start = False, to_end = snd e\<rparr>)
                     (filter (emit_rule (fst p) RightSide) (edges_right (snd p))))"
    by (simp add: fun_eq_iff emit_edges_def emit_rule_def [abs_def])
  then show "edge (emit g empty_Graph)
           = concat (map (\<lambda>p.
               map (\<lambda>e. \<lparr>from_id = fst p, to_id = fst e, from_start = True, to_end = \<not> snd e\<rparr>)
                   (filter (emit_rule (fst p) LeftSide) (edges_left (snd p)))
               @ map (\<lambda>e. \<lparr>from_id = fst p, to_id = fst e, from_start = False, to_end = snd e\<rparr>)
                     (filter (emit_rule (fst p) RightSide) (edges_right (snd p)))) g)"
    by (simp add: emit_def empty_Graph_def)
qed

theorem emission_emits_each_edge_once_witness:
  "emitted_count (emit looped_map empty_Graph) (entry_ends 2 LeftSide (1, False)) = 1
   \<and> emitted_count (emit looped_map empty_Graph) (entry_ends 2 LeftSide (2, True)) = 1
   \<and> emitted_count (emit looped_map empty_Graph) (entry_ends 3 LeftSide (3, False)) = 1"
proof -
  have d: "distinct (um_keys looped_map)" and i: "edge_mirror_invariant looped_map"
    by code_simp+
  have k: "2 \<in> set (um_keys looped_map)" "3 \<in> set (um_keys looped_map)"
    by code_simp+
  have m: "(1, False) \<in> set (edges_on LeftSide (g_at looped_map 2))"
    "(2, True) \<in> set (edges_on LeftSide (g_at looped_map 2))"
    "(3, False) \<in> set (edges_on LeftSide (g_at looped_map 3))"
    by code_simp+
  have c: "entry_count looped_map 2 LeftSide (1, False) = 1"
    "entry_count looped_map 2 LeftSide (2, True) = 1"
    "entry_count looped_map 3 LeftSide (3, False) = 1"
    by code_simp+
  from emission_emits_each_edge_once [OF d i k(1) m(1)]
    emission_emits_each_edge_once [OF d i k(1) m(2)]
    emission_emits_each_edge_once [OF d i k(2) m(3)] c
  show ?thesis by simp
qed






end
